theory Spec2Isabelle
  imports Main
begin

text \<open>
  A shallow embedding of the reactivity layer of \<^verbatim>\<open>packages/reactivity/src\<close>: the wrapper
  factories (\<^verbatim>\<open>reactive.ts\<close>) and the handler sets for plain objects and arrays
  (\<^verbatim>\<open>baseHandlers.ts\<close>).

  Objects live in a heap of cells addressed by numbers. A cell is an ordinary object or a proxy
  made of a target address and a handler set. An ordinary object has own data properties, all
  of them writable and configurable; property attributes, accessors and prototype chains are
  not represented, so that a property an object would inherit reads as \<open>undefined\<close>. The one
  exception is an array, which has its \<open>length\<close> and inherits the eight array methods that the
  handlers replace. Numbers are the integers and \<open>NaN\<close>. Property keys are normalised: an
  integer-like string key is \<open>KInt\<close>, any other string key is \<open>KStr\<close>, a symbol key is \<open>KSym\<close>.
  The four registries of the source are weak maps from target to wrapper; here they are partial
  maps on addresses.

  An operation returns the error or the value together with the state it leaves. A property
  access on a proxy re-enters the handlers, so the access operations are iterated by fuel;
  running out of fuel is the error \<open>OutOfFuel\<close>, an exception of the language is \<open>TypeError\<close> or
  \<open>RangeError\<close>, and behaviour outside the model is the error \<open>NotModelled\<close>.
\<close>

section \<open>Values, keys and the heap\<close>

datatype symbol = WellKnown string | UserSymbol nat

datatype key = KInt nat | KStr string | KSym symbol

datatype fn = Instrumented string | ArrayProto string

datatype val =
    VUndefined
  | VNull
  | VBool bool
  | VNum int
  | VNaN
  | VStr string
  | VSymbol symbol
  | VFun fn
  | VObj nat

datatype handlers =
    MutableHandlers
  | ReadonlyHandlers
  | ShallowReactiveHandlers
  | ShallowReadonlyHandlers
  | MutableCollectionHandlers
  | ReadonlyCollectionHandlers
  | ShallowCollectionHandlers
  | ShallowReadonlyCollectionHandlers

record obj =
  raw_type :: string
  extensible :: bool
  props :: "key \<Rightarrow> val option"
  len :: nat

datatype cell = Ordinary obj | Proxy nat handlers

datatype TrackOpTypes = GET | HAS | ITERATE

datatype TriggerOpTypes = SET | ADD | DELETE | CLEAR

datatype event =
    Track nat TrackOpTypes key
  | Trigger nat TriggerOpTypes key val val
  | Warn string

datatype proxyMap = ReactiveMap | ShallowReactiveMap | ReadonlyMap | ShallowReadonlyMap

record state =
  heap :: "nat \<Rightarrow> cell option"
  nxt :: nat
  reactiveMap :: "nat \<Rightarrow> nat option"
  shallowReactiveMap :: "nat \<Rightarrow> nat option"
  readonlyMap :: "nat \<Rightarrow> nat option"
  shallowReadonlyMap :: "nat \<Rightarrow> nat option"
  dev :: bool
  activeEffect :: bool
  shouldTrack :: bool
  trackStack :: "bool list"
  deps :: "(nat \<times> key) list"
  calls :: "event list"

datatype error = OutOfFuel | TypeError | RangeError | NotModelled

type_synonym 'a result = "error + ('a \<times> state)"

definition bindr :: "'a result \<Rightarrow> ('a \<Rightarrow> state \<Rightarrow> 'b result) \<Rightarrow> 'b result" where
  "bindr m f = (case m of Inl e \<Rightarrow> Inl e | Inr (v, st) \<Rightarrow> f v st)"

definition andr :: "bool result \<Rightarrow> (state \<Rightarrow> bool result) \<Rightarrow> bool result" where
  "andr m f = bindr m (\<lambda>b st. if b then f st else Inr (False, st))"

definition notr :: "bool result \<Rightarrow> bool result" where
  "notr m = bindr m (\<lambda>b st. Inr (\<not> b, st))"

definition lift_option :: "'a option \<Rightarrow> state \<Rightarrow> 'a result" where
  "lift_option x st = (case x of None \<Rightarrow> Inl TypeError | Some y \<Rightarrow> Inr (y, st))"

abbreviation SKIP :: key where "SKIP \<equiv> KStr ''__v_skip''"
abbreviation IS_REACTIVE :: key where "IS_REACTIVE \<equiv> KStr ''__v_isReactive''"
abbreviation IS_READONLY :: key where "IS_READONLY \<equiv> KStr ''__v_isReadonly''"
abbreviation IS_SHALLOW :: key where "IS_SHALLOW \<equiv> KStr ''__v_isShallow''"
abbreviation RAW :: key where "RAW \<equiv> KStr ''__v_raw''"

datatype TargetType = INVALID | COMMON | COLLECTION

definition targetTypeMap :: "string \<Rightarrow> TargetType" where
  "targetTypeMap rawType =
     (if rawType = ''Object'' \<or> rawType = ''Array'' then COMMON
      else if rawType = ''Map'' \<or> rawType = ''Set'' \<or> rawType = ''WeakMap'' \<or> rawType = ''WeakSet''
        then COLLECTION
      else INVALID)"

text \<open>
  Modelled from the spec: the predicates of the shared utility package (\<open>isObject\<close>, \<open>isSymbol\<close>,
  \<open>isIntegerKey\<close>, \<open>isArray\<close>, \<open>toRawType\<close>, \<open>hasOwn\<close>, \<open>hasChanged\<close>, \<open>makeMap\<close>, \<open>def\<close>) are
  imported by the sources and not defined in them. They are defined here and below on the
  value and key representation of this model: a structural value is a heap reference, a
  symbol key is \<open>KSym\<close>, an integer key is \<open>KInt\<close>, the runtime kind is the \<open>raw_type\<close> of the
  object, and \<open>hasChanged\<close> is inequality with \<open>NaN\<close> equal to itself. \<open>truthy\<close> is the
  language's conversion to a truth value.
\<close>

fun truthy :: "val \<Rightarrow> bool" where
  "truthy VUndefined = False"
| "truthy VNull = False"
| "truthy (VBool b) = b"
| "truthy (VNum n) = (n \<noteq> 0)"
| "truthy VNaN = False"
| "truthy (VStr s) = (s \<noteq> [])"
| "truthy _ = True"

fun isObject :: "val \<Rightarrow> bool" where
  "isObject (VObj a) = True"
| "isObject _ = False"

fun isSymbol :: "key \<Rightarrow> bool" where
  "isSymbol (KSym s) = True"
| "isSymbol _ = False"

fun isIntegerKey :: "key \<Rightarrow> bool" where
  "isIntegerKey (KInt i) = True"
| "isIntegerKey _ = False"

fun builtInSymbols_has :: "key \<Rightarrow> bool" where
  "builtInSymbols_has (KSym (WellKnown s)) = True"
| "builtInSymbols_has _ = False"

definition isNonTrackableKeys :: "key \<Rightarrow> bool" where
  "isNonTrackableKeys k = (k = KStr ''__proto__'' \<or> k = KStr ''__v_isRef'' \<or> k = KStr ''__isVue'')"

definition search_methods :: "string list" where
  "search_methods = [''includes'', ''indexOf'', ''lastIndexOf'']"

definition mutator_methods :: "string list" where
  "mutator_methods = [''push'', ''pop'', ''shift'', ''unshift'', ''splice'']"

fun arrayInstrumentations_hasOwn :: "key \<Rightarrow> bool" where
  "arrayInstrumentations_hasOwn (KStr s) = (s \<in> set search_methods \<or> s \<in> set mutator_methods)"
| "arrayInstrumentations_hasOwn _ = False"

fun arrayInstrumentations_get :: "key \<Rightarrow> val" where
  "arrayInstrumentations_get (KStr s) =
     (if s \<in> set search_methods \<or> s \<in> set mutator_methods then VFun (Instrumented s) else VUndefined)"
| "arrayInstrumentations_get _ = VUndefined"

definition ordinary_get :: "obj \<Rightarrow> key \<Rightarrow> val" where
  "ordinary_get ob k =
     (case props ob k of
        Some v \<Rightarrow> v
      | None \<Rightarrow>
          (if raw_type ob = ''Array'' then
             (case k of
                KStr s \<Rightarrow>
                  if s = ''length'' then VNum (int (len ob))
                  else if s \<in> set search_methods \<or> s \<in> set mutator_methods then VFun (ArrayProto s)
                  else VUndefined
              | _ \<Rightarrow> VUndefined)
           else VUndefined))"

definition ordinary_hasOwn :: "obj \<Rightarrow> key \<Rightarrow> bool" where
  "ordinary_hasOwn ob k = (props ob k \<noteq> None \<or> (raw_type ob = ''Array'' \<and> k = KStr ''length''))"

fun proxy_base :: "nat \<Rightarrow> (nat \<Rightarrow> cell option) \<Rightarrow> nat \<Rightarrow> (nat \<times> obj) option" where
  "proxy_base 0 h a = None"
| "proxy_base (Suc n) h a =
     (case h a of
        None \<Rightarrow> None
      | Some (Ordinary ob) \<Rightarrow> Some (a, ob)
      | Some (Proxy t hs) \<Rightarrow> proxy_base n h t)"

definition registry :: "proxyMap \<Rightarrow> state \<Rightarrow> nat \<Rightarrow> nat option" where
  "registry m st =
     (case m of
        ReactiveMap \<Rightarrow> reactiveMap st
      | ShallowReactiveMap \<Rightarrow> shallowReactiveMap st
      | ReadonlyMap \<Rightarrow> readonlyMap st
      | ShallowReadonlyMap \<Rightarrow> shallowReadonlyMap st)"

definition map_get :: "proxyMap \<Rightarrow> state \<Rightarrow> nat \<Rightarrow> val" where
  "map_get m st a = (case registry m st a of None \<Rightarrow> VUndefined | Some p \<Rightarrow> VObj p)"

definition map_set :: "proxyMap \<Rightarrow> nat \<Rightarrow> nat \<Rightarrow> state \<Rightarrow> state" where
  "map_set m a p st =
     (case m of
        ReactiveMap \<Rightarrow> st\<lparr>reactiveMap := (reactiveMap st)(a \<mapsto> p)\<rparr>
      | ShallowReactiveMap \<Rightarrow> st\<lparr>shallowReactiveMap := (shallowReactiveMap st)(a \<mapsto> p)\<rparr>
      | ReadonlyMap \<Rightarrow> st\<lparr>readonlyMap := (readonlyMap st)(a \<mapsto> p)\<rparr>
      | ShallowReadonlyMap \<Rightarrow> st\<lparr>shallowReadonlyMap := (shallowReadonlyMap st)(a \<mapsto> p)\<rparr>)"

fun get_isReadonly :: "handlers \<Rightarrow> bool" where
  "get_isReadonly ReadonlyHandlers = True"
| "get_isReadonly ShallowReadonlyHandlers = True"
| "get_isReadonly ReadonlyCollectionHandlers = True"
| "get_isReadonly ShallowReadonlyCollectionHandlers = True"
| "get_isReadonly _ = False"

fun get_shallow :: "handlers \<Rightarrow> bool" where
  "get_shallow ShallowReactiveHandlers = True"
| "get_shallow ShallowReadonlyHandlers = True"
| "get_shallow ShallowCollectionHandlers = True"
| "get_shallow ShallowReadonlyCollectionHandlers = True"
| "get_shallow _ = False"

fun is_collection :: "handlers \<Rightarrow> bool" where
  "is_collection MutableCollectionHandlers = True"
| "is_collection ReadonlyCollectionHandlers = True"
| "is_collection ShallowCollectionHandlers = True"
| "is_collection ShallowReadonlyCollectionHandlers = True"
| "is_collection _ = False"

definition variant_map :: "bool \<Rightarrow> bool \<Rightarrow> proxyMap" where
  "variant_map isReadonly' shallow =
     (if isReadonly' then (if shallow then ShallowReadonlyMap else ReadonlyMap)
      else (if shallow then ShallowReactiveMap else ReactiveMap))"

text \<open>
  Modelled from the spec: the dependency-tracking subsystem (\<^verbatim>\<open>effect.ts\<close>) is not among the
  sources. \<open>track\<close> records that the active reader depends on the pair of target and key, and
  records nothing when no reader is active or tracking is suppressed; \<open>trigger\<close> notifies the
  readers of a pair. Every call of either is appended to the log \<open>calls\<close>; the dependencies
  actually registered are collected in \<open>deps\<close>. The build flag \<^verbatim>\<open>__DEV__\<close> is the field \<open>dev\<close>
  of the state, and \<open>warn\<close> (\<^verbatim>\<open>warning.ts\<close>) is the non-fatal diagnostic channel, logged in
  \<open>calls\<close> as well, with the message shortened.
\<close>

definition track :: "nat \<Rightarrow> TrackOpTypes \<Rightarrow> key \<Rightarrow> state \<Rightarrow> state" where
  "track target ty k st =
     st\<lparr>calls := calls st @ [Track target ty k],
        deps := (if shouldTrack st \<and> activeEffect st then deps st @ [(target, k)] else deps st)\<rparr>"

definition trigger :: "nat \<Rightarrow> TriggerOpTypes \<Rightarrow> key \<Rightarrow> val \<Rightarrow> val \<Rightarrow> state \<Rightarrow> state" where
  "trigger target ty k newValue oldValue st = st\<lparr>calls := calls st @ [Trigger target ty k newValue oldValue]\<rparr>"

definition warn :: "string \<Rightarrow> state \<Rightarrow> state" where
  "warn msg st = st\<lparr>calls := calls st @ [Warn msg]\<rparr>"

text \<open>
  Modelled from the spec: the handler sets for map-like and set-like collections
  (\<^verbatim>\<open>collectionHandlers.ts\<close>) are not among the sources. Their read trap answers the flag
  keys and the raw sentinel like the base handlers; everything else on a collection wrapper is
  outside the model.
\<close>

definition collection_get :: "bool \<Rightarrow> bool \<Rightarrow> nat \<Rightarrow> key \<Rightarrow> val \<Rightarrow> state \<Rightarrow> val result" where
  "collection_get isReadonly' shallow target k receiver st =
     (if k = IS_REACTIVE then Inr (VBool (\<not> isReadonly'), st)
      else if k = IS_READONLY then Inr (VBool isReadonly', st)
      else if k = IS_SHALLOW then Inr (VBool shallow, st)
      else if k = RAW \<and> receiver = map_get (variant_map isReadonly' shallow) st target
        then Inr (VObj target, st)
      else Inl NotModelled)"


definition isExtensible :: "state \<Rightarrow> nat \<Rightarrow> bool option" where
  "isExtensible st a = map_option (\<lambda>(b, ob). extensible ob) (proxy_base (Suc a) (heap st) a)"

definition toRawType :: "state \<Rightarrow> nat \<Rightarrow> string option" where
  "toRawType st a = map_option (\<lambda>(b, ob). raw_type ob) (proxy_base (Suc a) (heap st) a)"

definition isArray :: "state \<Rightarrow> nat \<Rightarrow> bool option" where
  "isArray st a = map_option (\<lambda>(b, ob). raw_type ob = ''Array'') (proxy_base (Suc a) (heap st) a)"

type_synonym getter = "val \<Rightarrow> key \<Rightarrow> val \<Rightarrow> state \<Rightarrow> val result"

text \<open>
  Modelled from the spec: the boxed reference (\<^verbatim>\<open>ref.ts\<close>) is not among the sources. A
  boxed reference is an object whose \<^verbatim>\<open>__v_isRef\<close> property is \<open>true\<close>; its inner slot is the
  property \<open>value\<close>.
\<close>

definition isRef :: "getter \<Rightarrow> val \<Rightarrow> state \<Rightarrow> bool result" where
  "isRef get r st =
     (if truthy r
      then bindr (get r (KStr ''__v_isRef'') r st) (\<lambda>v st1. Inr (v = VBool True, st1))
      else Inr (False, st))"

definition isReadonly :: "getter \<Rightarrow> val \<Rightarrow> state \<Rightarrow> bool result" where
  "isReadonly get v st =
     (if truthy v
      then bindr (get v IS_READONLY v st) (\<lambda>f st1. Inr (truthy f, st1))
      else Inr (False, st))"

definition isShallow :: "getter \<Rightarrow> val \<Rightarrow> state \<Rightarrow> bool result" where
  "isShallow get v st =
     (if truthy v
      then bindr (get v IS_SHALLOW v st) (\<lambda>f st1. Inr (truthy f, st1))
      else Inr (False, st))"

definition getTargetType :: "getter \<Rightarrow> val \<Rightarrow> state \<Rightarrow> TargetType result" where
  "getTargetType get v st =
     (case v of
        VObj a \<Rightarrow>
          bindr (get v SKIP v st) (\<lambda>skip st1.
            if truthy skip then Inr (INVALID, st1)
            else
              (case isExtensible st1 a of
                 None \<Rightarrow> Inl TypeError
               | Some ext \<Rightarrow>
                   if \<not> ext then Inr (INVALID, st1)
                   else
                     (case toRawType st1 a of
                        None \<Rightarrow> Inl TypeError
                      | Some rawType \<Rightarrow> Inr (targetTypeMap rawType, st1))))
      | _ \<Rightarrow> Inl TypeError)"

definition createReactiveObject ::
  "getter \<Rightarrow> val \<Rightarrow> bool \<Rightarrow> handlers \<Rightarrow> handlers \<Rightarrow> proxyMap \<Rightarrow> state \<Rightarrow> val result" where
  "createReactiveObject get target isReadonly' baseHandlers collectionHandlers pm st =
     (case target of
        VObj a \<Rightarrow>
          bindr (get target RAW target st) (\<lambda>raw st1.
            bindr (if truthy raw
                   then (if isReadonly'
                         then bindr (get target IS_REACTIVE target st1)
                                (\<lambda>f st2. Inr (\<not> truthy f, st2))
                         else Inr (True, st1))
                   else Inr (False, st1)) (\<lambda>already st2.
              if already then Inr (target, st2)
              else
                (case map_get pm st2 a of
                   VObj existingProxy \<Rightarrow> Inr (VObj existingProxy, st2)
                 | _ \<Rightarrow>
                     bindr (getTargetType get target st2) (\<lambda>targetType st3.
                       if targetType = INVALID then Inr (target, st3)
                       else
                         let p = nxt st3;
                             hs = (if targetType = COLLECTION then collectionHandlers else baseHandlers)
                         in Inr (VObj p,
                              map_set pm a p
                                (st3\<lparr>heap := (heap st3)(p \<mapsto> Proxy a hs), nxt := Suc p\<rparr>))))))
      | _ \<Rightarrow> Inr (target, if dev st then warn ''value cannot be made reactive'' st else st))"

definition reactive :: "getter \<Rightarrow> val \<Rightarrow> state \<Rightarrow> val result" where
  "reactive get target st =
     bindr (isReadonly get target st) (\<lambda>ro st1.
       if ro then Inr (target, st1)
       else createReactiveObject get target False MutableHandlers MutableCollectionHandlers
              ReactiveMap st1)"

definition shallowReactive :: "getter \<Rightarrow> val \<Rightarrow> state \<Rightarrow> val result" where
  "shallowReactive get target st =
     createReactiveObject get target False ShallowReactiveHandlers ShallowCollectionHandlers
       ShallowReactiveMap st"

definition readonly :: "getter \<Rightarrow> val \<Rightarrow> state \<Rightarrow> val result" where
  "readonly get target st =
     createReactiveObject get target True ReadonlyHandlers ReadonlyCollectionHandlers
       ReadonlyMap st"

definition shallowReadonly :: "getter \<Rightarrow> val \<Rightarrow> state \<Rightarrow> val result" where
  "shallowReadonly get target st =
     createReactiveObject get target True ShallowReadonlyHandlers
       ShallowReadonlyCollectionHandlers ShallowReadonlyMap st"

definition createGetter ::
  "getter \<Rightarrow> bool \<Rightarrow> bool \<Rightarrow> nat \<Rightarrow> key \<Rightarrow> val \<Rightarrow> state \<Rightarrow> val result" where
  "createGetter get isReadonly' shallow target k receiver st =
     (if k = IS_REACTIVE then Inr (VBool (\<not> isReadonly'), st)
      else if k = IS_READONLY then Inr (VBool isReadonly', st)
      else if k = IS_SHALLOW then Inr (VBool shallow, st)
      else if k = RAW \<and> receiver = map_get (variant_map isReadonly' shallow) st target
        then Inr (VObj target, st)
      else
        (case isArray st target of
           None \<Rightarrow> Inl TypeError
         | Some targetIsArray \<Rightarrow>
             if \<not> isReadonly' \<and> targetIsArray \<and> arrayInstrumentations_hasOwn k
             then Inr (arrayInstrumentations_get k, st)
             else
               bindr (get (VObj target) k receiver st) (\<lambda>res st1.
                 if (if isSymbol k then builtInSymbols_has k else isNonTrackableKeys k)
                 then Inr (res, st1)
                 else
                   let st2 = (if \<not> isReadonly' then track target GET k st1 else st1) in
                   if shallow then Inr (res, st2)
                   else
                     bindr (isRef get res st2) (\<lambda>r st3.
                       if r then
                         (if targetIsArray \<and> isIntegerKey k then Inr (res, st3)
                          else get res (KStr ''value'') res st3)
                       else if isObject res then
                         (if isReadonly' then readonly get res st3 else reactive get res st3)
                       else Inr (res, st3)))))"

definition get_step :: "getter \<Rightarrow> getter" where
  "get_step get v k receiver st =
     (case v of
        VObj a \<Rightarrow>
          (case heap st a of
             None \<Rightarrow> Inl TypeError
           | Some (Ordinary ob) \<Rightarrow> Inr (ordinary_get ob k, st)
           | Some (Proxy t hs) \<Rightarrow>
               if is_collection hs
               then collection_get (get_isReadonly hs) (get_shallow hs) t k receiver st
               else createGetter get (get_isReadonly hs) (get_shallow hs) t k receiver st)
      | VUndefined \<Rightarrow> Inl TypeError
      | VNull \<Rightarrow> Inl TypeError
      | _ \<Rightarrow> Inr (VUndefined, st))"

primrec js_get :: "nat \<Rightarrow> getter" where
  "js_get 0 = (\<lambda>v k receiver st. Inl OutOfFuel)"
| "js_get (Suc n) = get_step (js_get n)"


fun toRaw :: "nat \<Rightarrow> val \<Rightarrow> state \<Rightarrow> val result" where
  "toRaw 0 observed st = Inl OutOfFuel"
| "toRaw (Suc n) observed st =
     bindr (if truthy observed then js_get n observed RAW observed st else Inr (observed, st))
       (\<lambda>raw st1. if truthy raw then toRaw n raw st1 else Inr (observed, st1))"

fun isReactive :: "nat \<Rightarrow> val \<Rightarrow> state \<Rightarrow> bool result" where
  "isReactive 0 v st = Inl OutOfFuel"
| "isReactive (Suc n) v st =
     bindr (isReadonly (js_get n) v st) (\<lambda>ro st1.
       if ro then bindr (js_get n v RAW v st1) (\<lambda>raw st2. isReactive n raw st2)
       else if truthy v
         then bindr (js_get n v IS_REACTIVE v st1) (\<lambda>f st2. Inr (truthy f, st2))
         else Inr (False, st1))"

definition isProxy :: "nat \<Rightarrow> val \<Rightarrow> state \<Rightarrow> bool result" where
  "isProxy n v st =
     bindr (isReactive n v st) (\<lambda>r st1.
       if r then Inr (True, st1) else isReadonly (js_get n) v st1)"

definition toReactive :: "nat \<Rightarrow> val \<Rightarrow> state \<Rightarrow> val result" where
  "toReactive n v st = (if isObject v then reactive (js_get n) v st else Inr (v, st))"

definition toReadonly :: "nat \<Rightarrow> val \<Rightarrow> state \<Rightarrow> val result" where
  "toReadonly n v st = (if isObject v then readonly (js_get n) v st else Inr (v, st))"

section \<open>Writes\<close>

text \<open>
  The underlying write \<open>Reflect.set\<close> defines the property on the object the receiver stands
  for. An array index is an integer key below 4294967295; writing one at or beyond the length
  extends the length, and any other integer key is an ordinary property. Writing an array's
  \<open>length\<close> converts the value to a length, throws \<open>RangeError\<close> when the value is no integer
  from 0 to 4294967295, and removes the indices at or beyond the new length. A new property on an
  object that is not extensible is not defined, and the write answers \<open>False\<close>.
\<close>

definition is_array_index :: "nat \<Rightarrow> bool" where
  "is_array_index i \<longleftrightarrow> i < 4294967295"

fun array_length_of :: "val \<Rightarrow> error + nat" where
  "array_length_of (VNum m) = (if 0 \<le> m \<and> m < 4294967296 then Inr (nat m) else Inl RangeError)"
| "array_length_of VNaN = Inl RangeError"
| "array_length_of VUndefined = Inl RangeError"
| "array_length_of VNull = Inr 0"
| "array_length_of (VBool b) = Inr (if b then 1 else 0)"
| "array_length_of (VSymbol s) = Inl TypeError"
| "array_length_of (VFun f) = Inl RangeError"
| "array_length_of _ = Inl NotModelled"

definition define_own :: "obj \<Rightarrow> key \<Rightarrow> val \<Rightarrow> error + obj option" where
  "define_own ob k v =
     (if raw_type ob = ''Array'' \<and> k = KStr ''length'' then
        (case array_length_of v of
           Inl e \<Rightarrow> Inl e
         | Inr m \<Rightarrow>
             Inr (Some (ob\<lparr>props := (\<lambda>j. case j of
                                          KInt i \<Rightarrow>
                                            if i < m \<or> \<not> is_array_index i then props ob j else None
                                        | _ \<Rightarrow> props ob j),
                             len := m\<rparr>)))
      else if props ob k \<noteq> None then Inr (Some (ob\<lparr>props := (props ob)(k \<mapsto> v)\<rparr>))
      else if extensible ob then
        Inr (Some (ob\<lparr>props := (props ob)(k \<mapsto> v),
                      len := (case k of
                                KInt i \<Rightarrow>
                                  if raw_type ob = ''Array'' \<and> is_array_index i
                                  then max (len ob) (Suc i) else len ob
                              | _ \<Rightarrow> len ob)\<rparr>))
      else Inr None)"

definition ordinary_set :: "key \<Rightarrow> val \<Rightarrow> val \<Rightarrow> state \<Rightarrow> bool result" where
  "ordinary_set k v receiver st =
     (case receiver of
        VObj r \<Rightarrow>
          (case proxy_base (Suc r) (heap st) r of
             None \<Rightarrow> Inl TypeError
           | Some (b, bob) \<Rightarrow>
               (case define_own bob k v of
                  Inl e \<Rightarrow> Inl e
                | Inr None \<Rightarrow> Inr (False, st)
                | Inr (Some ob') \<Rightarrow> Inr (True, st\<lparr>heap := (heap st)(b \<mapsto> Ordinary ob')\<rparr>)))
      | _ \<Rightarrow> Inr (False, st))"

definition hasOwn :: "state \<Rightarrow> nat \<Rightarrow> key \<Rightarrow> bool option" where
  "hasOwn st a k = map_option (\<lambda>(b, ob). ordinary_hasOwn ob k) (proxy_base (Suc a) (heap st) a)"

definition hasChanged :: "val \<Rightarrow> val \<Rightarrow> bool" where
  "hasChanged v oldValue = (v \<noteq> oldValue)"

fun number_lt :: "val \<Rightarrow> val \<Rightarrow> bool" where
  "number_lt (VNum a) (VNum b) = (a < b)"
| "number_lt _ _ = False"

fun key_Number :: "key \<Rightarrow> val" where
  "key_Number (KInt i) = VNum (int i)"
| "key_Number _ = VNaN"

type_synonym setter = "val \<Rightarrow> key \<Rightarrow> val \<Rightarrow> val \<Rightarrow> state \<Rightarrow> bool result"

definition createSetter ::
  "nat \<Rightarrow> setter \<Rightarrow> bool \<Rightarrow> nat \<Rightarrow> key \<Rightarrow> val \<Rightarrow> val \<Rightarrow> state \<Rightarrow> bool result" where
  "createSetter n put shallow target k v receiver st =
     bindr (js_get n (VObj target) k (VObj target) st) (\<lambda>oldValue st1.
     bindr (andr (isReadonly (js_get n) oldValue st1) (\<lambda>s.
            andr (isRef (js_get n) oldValue s) (\<lambda>s.
            notr (isRef (js_get n) v s)))) (\<lambda>reject st2.
     if reject then Inr (False, st2)
     else
       bindr (if shallow then Inr ((oldValue, v), st2)
              else
                bindr (andr (notr (isShallow (js_get n) v st2)) (\<lambda>s.
                       notr (isReadonly (js_get n) v s))) (\<lambda>unwrap st3.
                  if unwrap then
                    bindr (toRaw n oldValue st3) (\<lambda>oldRaw st4.
                    bindr (toRaw n v st4) (\<lambda>vRaw st5. Inr ((oldRaw, vRaw), st5)))
                  else Inr ((oldValue, v), st3))) (\<lambda>(oldValue', v') st5.
       bindr (if shallow then Inr (False, st5)
              else
                andr (notr (lift_option (isArray st5 target) st5)) (\<lambda>s.
                andr (isRef (js_get n) oldValue' s) (\<lambda>s.
                notr (isRef (js_get n) v' s)))) (\<lambda>intoBox st6.
       if intoBox then
         bindr (put oldValue' (KStr ''value'') v' oldValue' st6) (\<lambda>ok st7.
           if ok then Inr (True, st7) else Inl TypeError)
       else
         bindr (lift_option (isArray st6 target) st6) (\<lambda>targetIsArray st7.
         bindr (if targetIsArray \<and> isIntegerKey k
                then bindr (js_get n (VObj target) (KStr ''length'') (VObj target) st7)
                       (\<lambda>l s. Inr (number_lt (key_Number k) l, s))
                else lift_option (hasOwn st7 target k) st7) (\<lambda>hadKey st8.
         bindr (put (VObj target) k v' receiver st8) (\<lambda>result st9.
         bindr (toRaw n receiver st9) (\<lambda>rawReceiver st10.
           Inr (result,
             if VObj target = rawReceiver then
               (if \<not> hadKey then trigger target ADD k v' VUndefined st10
                else if hasChanged v' oldValue' then trigger target SET k v' oldValue' st10
                else st10)
             else st10)))))))))"

definition readonly_set :: "nat \<Rightarrow> key \<Rightarrow> state \<Rightarrow> bool result" where
  "readonly_set target k st =
     Inr (True, if dev st then warn ''Set operation on key failed: target is readonly.'' st else st)"

definition readonly_deleteProperty :: "nat \<Rightarrow> key \<Rightarrow> state \<Rightarrow> bool result" where
  "readonly_deleteProperty target k st =
     Inr (True, if dev st then warn ''Delete operation on key failed: target is readonly.'' st else st)"

definition set_step :: "nat \<Rightarrow> setter \<Rightarrow> setter" where
  "set_step n put x k v receiver st =
     (case x of
        VObj a \<Rightarrow>
          (case heap st a of
             None \<Rightarrow> Inl TypeError
           | Some (Ordinary ob) \<Rightarrow> ordinary_set k v receiver st
           | Some (Proxy t hs) \<Rightarrow>
               if is_collection hs then Inl NotModelled
               else if get_isReadonly hs then readonly_set t k st
               else createSetter n put (get_shallow hs) t k v receiver st)
      | _ \<Rightarrow> Inl TypeError)"

primrec js_set :: "nat \<Rightarrow> setter" where
  "js_set 0 = (\<lambda>x k v receiver st. Inl OutOfFuel)"
| "js_set (Suc n) = set_step n (js_set n)"


section \<open>Delete and presence traps\<close>

type_synonym deleter = "val \<Rightarrow> key \<Rightarrow> state \<Rightarrow> bool result"

definition ordinary_delete :: "nat \<Rightarrow> obj \<Rightarrow> key \<Rightarrow> state \<Rightarrow> bool result" where
  "ordinary_delete a ob k st =
     (if raw_type ob = ''Array'' \<and> k = KStr ''length'' then Inr (False, st)
      else Inr (True, st\<lparr>heap := (heap st)(a \<mapsto> Ordinary (ob\<lparr>props := (props ob)(k := None)\<rparr>))\<rparr>))"

definition deleteProperty :: "nat \<Rightarrow> deleter \<Rightarrow> nat \<Rightarrow> key \<Rightarrow> state \<Rightarrow> bool result" where
  "deleteProperty n del target k st =
     bindr (lift_option (hasOwn st target k) st) (\<lambda>hadKey st1.
     bindr (js_get n (VObj target) k (VObj target) st1) (\<lambda>oldValue st2.
     bindr (del (VObj target) k st2) (\<lambda>result st3.
       Inr (result,
         if result \<and> hadKey then trigger target DELETE k VUndefined oldValue st3 else st3))))"

definition delete_step :: "nat \<Rightarrow> deleter \<Rightarrow> deleter" where
  "delete_step n del x k st =
     (case x of
        VObj a \<Rightarrow>
          (case heap st a of
             None \<Rightarrow> Inl TypeError
           | Some (Ordinary ob) \<Rightarrow> ordinary_delete a ob k st
           | Some (Proxy t hs) \<Rightarrow>
               if is_collection hs then Inl NotModelled
               else if get_isReadonly hs then readonly_deleteProperty t k st
               else deleteProperty n del t k st)
      | _ \<Rightarrow> Inl TypeError)"

primrec js_delete :: "nat \<Rightarrow> deleter" where
  "js_delete 0 = (\<lambda>x k st. Inl OutOfFuel)"
| "js_delete (Suc n) = delete_step n (js_delete n)"

definition ordinary_has :: "obj \<Rightarrow> key \<Rightarrow> bool" where
  "ordinary_has ob k =
     (ordinary_hasOwn ob k \<or>
      (raw_type ob = ''Array'' \<and>
       (case k of KStr s \<Rightarrow> s \<in> set search_methods \<or> s \<in> set mutator_methods | _ \<Rightarrow> False)))"

definition has :: "deleter \<Rightarrow> nat \<Rightarrow> key \<Rightarrow> state \<Rightarrow> bool result" where
  "has hasP target k st =
     bindr (hasP (VObj target) k st) (\<lambda>result st1.
       Inr (result,
         if \<not> isSymbol k \<or> \<not> builtInSymbols_has k then track target HAS k st1 else st1))"

definition has_step :: "deleter \<Rightarrow> deleter" where
  "has_step hasP x k st =
     (case x of
        VObj a \<Rightarrow>
          (case heap st a of
             None \<Rightarrow> Inl TypeError
           | Some (Ordinary ob) \<Rightarrow> Inr (ordinary_has ob k, st)
           | Some (Proxy t hs) \<Rightarrow>
               if is_collection hs then Inl NotModelled
               else if get_isReadonly hs then hasP (VObj t) k st
               else has hasP t k st)
      | _ \<Rightarrow> Inl TypeError)"

primrec js_has :: "nat \<Rightarrow> deleter" where
  "js_has 0 = (\<lambda>x k st. Inl OutOfFuel)"
| "js_has (Suc n) = has_step (js_has n)"

section \<open>Marking and tracking control\<close>

text \<open>
  \<open>markRaw\<close> defines the skip marker on the object itself through \<open>def\<close>; as property
  attributes are not represented, the marker is an ordinary property here. Modelled from the
  spec: \<open>pauseTracking\<close> and \<open>resetTracking\<close> (\<^verbatim>\<open>effect.ts\<close>) push the current tracking flag
  on the suppression stack and switch tracking off, respectively pop the stack and restore the
  flag found there (tracking is on when the stack is empty).
\<close>

definition markRaw :: "val \<Rightarrow> state \<Rightarrow> val result" where
  "markRaw v st =
     (case v of
        VObj a \<Rightarrow>
          (case proxy_base (Suc a) (heap st) a of
             None \<Rightarrow> Inl TypeError
           | Some (b, bob) \<Rightarrow>
               (case define_own bob SKIP (VBool True) of
                  Inr (Some ob') \<Rightarrow> Inr (v, st\<lparr>heap := (heap st)(b \<mapsto> Ordinary ob')\<rparr>)
                | _ \<Rightarrow> Inl TypeError))
      | _ \<Rightarrow> Inl TypeError)"

definition pauseTracking :: "state \<Rightarrow> state" where
  "pauseTracking st = st\<lparr>trackStack := shouldTrack st # trackStack st, shouldTrack := False\<rparr>"

definition resetTracking :: "state \<Rightarrow> state" where
  "resetTracking st =
     (case trackStack st of
        [] \<Rightarrow> st\<lparr>shouldTrack := True\<rparr>
      | b # bs \<Rightarrow> st\<lparr>trackStack := bs, shouldTrack := b\<rparr>)"

section \<open>Array methods\<close>

text \<open>
  The native array methods, which the replacement methods of \<open>createArrayInstrumentations\<close>
  fetch from the raw array. The three searches read the elements of an ordinary array
  directly. The five length-altering methods are generic in the language: they act on their
  \<open>this\<close> value only through property reads, writes, deletions and presence checks, so that on
  a wrapper every access goes through its traps. A native method is therefore a program
  (\<open>prog\<close>) over these four operations and the allocation of a new array, and \<open>run\<close> executes
  it; \<open>push_method\<close>, \<open>pop_method\<close>, \<open>shift_method\<close>, \<open>unshift_method\<close> and \<open>splice_method\<close> are
  the programs of the language's methods, in the order of their steps, for an array as \<open>this\<close>
  and for \<open>splice\<close> arguments that are numbers. The replacement methods are parametrised by
  the native methods (\<open>native\<close>).
\<close>

definition strict_equal :: "val \<Rightarrow> val \<Rightarrow> bool" where
  "strict_equal a b = (a \<noteq> VNaN \<and> a = b)"

definition element :: "obj \<Rightarrow> nat \<Rightarrow> val" where
  "element ob i = (case props ob (KInt i) of None \<Rightarrow> VUndefined | Some v \<Rightarrow> v)"

definition from_index :: "nat \<Rightarrow> val list \<Rightarrow> nat option" where
  "from_index l args =
     (case args of
        _ # VNum m # _ \<Rightarrow> Some (if 0 \<le> m then nat m else nat (int l + m))
      | _ # VUndefined # _ \<Rightarrow> Some 0
      | [_] \<Rightarrow> Some 0
      | [] \<Rightarrow> Some 0
      | _ \<Rightarrow> None)"

definition last_from_index :: "nat \<Rightarrow> val list \<Rightarrow> int option" where
  "last_from_index l args =
     (case args of
        _ # VNum m # _ \<Rightarrow> Some (if 0 \<le> m then min m (int l - 1) else int l + m)
      | [_] \<Rightarrow> Some (int l - 1)
      | [] \<Rightarrow> Some (int l - 1)
      | _ \<Rightarrow> None)"

definition search_element :: "val list \<Rightarrow> val" where
  "search_element args = (case args of [] \<Rightarrow> VUndefined | x # _ \<Rightarrow> x)"

definition native_search :: "string \<Rightarrow> obj \<Rightarrow> val list \<Rightarrow> val option" where
  "native_search name ob args =
     (if name = ''includes'' then
        map_option (\<lambda>k. VBool (\<exists>i \<in> set [k..<len ob]. element ob i = search_element args))
          (from_index (len ob) args)
      else if name = ''indexOf'' then
        map_option (\<lambda>k.
            case filter (\<lambda>i. props ob (KInt i) \<noteq> None \<and> strict_equal (element ob i) (search_element args))
                   [k..<len ob] of
              [] \<Rightarrow> VNum (- 1)
            | i # _ \<Rightarrow> VNum (int i))
          (from_index (len ob) args)
      else if name = ''lastIndexOf'' then
        map_option (\<lambda>k.
            case filter (\<lambda>i. int i \<le> k \<and> props ob (KInt i) \<noteq> None \<and>
                              strict_equal (element ob i) (search_element args))
                   (rev [0..<len ob]) of
              [] \<Rightarrow> VNum (- 1)
            | i # _ \<Rightarrow> VNum (int i))
          (last_from_index (len ob) args)
      else None)"

datatype prog =
    Return val
  | Throw error
  | Get val key "val \<Rightarrow> prog"
  | Put val key val "bool \<Rightarrow> prog"
  | Delete val key "bool \<Rightarrow> prog"
  | Has val key "bool \<Rightarrow> prog"
  | NewArray nat "val \<Rightarrow> prog"

primrec run :: "nat \<Rightarrow> prog \<Rightarrow> state \<Rightarrow> val result" where
  "run n (Return v) st = Inr (v, st)"
| "run n (Throw e) st = Inl e"
| "run n (Get x k c) st = bindr (js_get n x k x st) (\<lambda>v st1. run n (c v) st1)"
| "run n (Put x k v c) st = bindr (js_set n x k v x st) (\<lambda>ok st1. run n (c ok) st1)"
| "run n (Delete x k c) st = bindr (js_delete n x k st) (\<lambda>ok st1. run n (c ok) st1)"
| "run n (Has x k c) st = bindr (js_has n x k st) (\<lambda>present st1. run n (c present) st1)"
| "run n (NewArray l c) st =
     (if l < 4294967296 then
        run n (c (VObj (nxt st)))
          (st\<lparr>heap := (heap st)(nxt st \<mapsto>
                 Ordinary \<lparr>raw_type = ''Array'', extensible = True, props = Map.empty, len = l\<rparr>),
             nxt := Suc (nxt st)\<rparr>)
      else Inl RangeError)"

definition length_of :: "val \<Rightarrow> (nat \<Rightarrow> prog) \<Rightarrow> prog" where
  "length_of this c =
     Get this (KStr ''length'') (\<lambda>l.
       case l of
         VNum m \<Rightarrow> c (nat (min m 9007199254740991))
       | VUndefined \<Rightarrow> c 0
       | VNull \<Rightarrow> c 0
       | VNaN \<Rightarrow> c 0
       | VBool b \<Rightarrow> c (if b then 1 else 0)
       | _ \<Rightarrow> Throw NotModelled)"

definition set_length :: "val \<Rightarrow> nat \<Rightarrow> val \<Rightarrow> prog" where
  "set_length this l res =
     Put this (KStr ''length'') (VNum (int l)) (\<lambda>ok. if ok then Return res else Throw TypeError)"

fun put_items :: "val \<Rightarrow> nat \<Rightarrow> val list \<Rightarrow> prog \<Rightarrow> prog" where
  "put_items this l [] rest = rest"
| "put_items this l (e # es) rest =
     Put this (KInt l) e (\<lambda>ok. if ok then put_items this (Suc l) es rest else Throw TypeError)"

primrec move_items :: "val \<Rightarrow> (nat \<times> nat) list \<Rightarrow> prog \<Rightarrow> prog" where
  "move_items this [] rest = rest"
| "move_items this (p # ps) rest =
     Has this (KInt (fst p)) (\<lambda>present.
       if present then
         Get this (KInt (fst p)) (\<lambda>v.
         Put this (KInt (snd p)) v (\<lambda>ok.
           if ok then move_items this ps rest else Throw TypeError))
       else
         Delete this (KInt (snd p)) (\<lambda>ok.
           if ok then move_items this ps rest else Throw TypeError))"

primrec delete_items :: "val \<Rightarrow> nat list \<Rightarrow> prog \<Rightarrow> prog" where
  "delete_items this [] rest = rest"
| "delete_items this (i # is) rest =
     Delete this (KInt i) (\<lambda>ok. if ok then delete_items this is rest else Throw TypeError)"

primrec copy_items :: "val \<Rightarrow> val \<Rightarrow> (nat \<times> nat) list \<Rightarrow> prog \<Rightarrow> prog" where
  "copy_items this arr [] rest = rest"
| "copy_items this arr (p # ps) rest =
     Has this (KInt (fst p)) (\<lambda>present.
       if present then
         Get this (KInt (fst p)) (\<lambda>v.
         Put arr (KInt (snd p)) v (\<lambda>ok.
           if ok then copy_items this arr ps rest else Throw TypeError))
       else copy_items this arr ps rest)"

definition push_method :: "val \<Rightarrow> val list \<Rightarrow> prog" where
  "push_method this args =
     length_of this (\<lambda>l.
       if l + length args > 9007199254740991 then Throw TypeError
       else put_items this l args
              (set_length this (l + length args) (VNum (int (l + length args)))))"

definition pop_method :: "val \<Rightarrow> prog" where
  "pop_method this =
     length_of this (\<lambda>l.
       if l = 0 then set_length this 0 VUndefined
       else
         Get this (KInt (l - 1)) (\<lambda>e.
         delete_items this [l - 1] (set_length this (l - 1) e)))"

definition shift_method :: "val \<Rightarrow> prog" where
  "shift_method this =
     length_of this (\<lambda>l.
       if l = 0 then set_length this 0 VUndefined
       else
         Get this (KInt 0) (\<lambda>first.
         move_items this (map (\<lambda>k. (k, k - 1)) [1..<l])
           (delete_items this [l - 1] (set_length this (l - 1) first))))"

definition unshift_method :: "val \<Rightarrow> val list \<Rightarrow> prog" where
  "unshift_method this args =
     length_of this (\<lambda>l.
       if args = [] then set_length this l (VNum (int l))
       else if l + length args > 9007199254740991 then Throw TypeError
       else
         move_items this (map (\<lambda>k. (k - 1, k + length args - 1)) (rev [1..<Suc l]))
           (put_items this 0 args
              (set_length this (l + length args) (VNum (int (l + length args))))))"

fun to_integer :: "val \<Rightarrow> int option" where
  "to_integer (VNum m) = Some m"
| "to_integer VUndefined = Some 0"
| "to_integer VNull = Some 0"
| "to_integer VNaN = Some 0"
| "to_integer (VBool b) = Some (if b then 1 else 0)"
| "to_integer _ = None"

definition splice_range :: "nat \<Rightarrow> val list \<Rightarrow> (nat \<times> nat) option" where
  "splice_range l args =
     (case args of
        [] \<Rightarrow> Some (0, 0)
      | s # rest \<Rightarrow>
          (case to_integer s of
             None \<Rightarrow> None
           | Some rs \<Rightarrow>
               let start = (if rs < 0 then nat (max (int l + rs) 0) else nat (min rs (int l))) in
               (case rest of
                  [] \<Rightarrow> Some (start, l - start)
                | dc # _ \<Rightarrow>
                    (case to_integer dc of
                       None \<Rightarrow> None
                     | Some c \<Rightarrow> Some (start, nat (min (max c 0) (int (l - start))))))))"

definition splice_method :: "val \<Rightarrow> val list \<Rightarrow> prog" where
  "splice_method this args =
     length_of this (\<lambda>l.
       case splice_range l args of
         None \<Rightarrow> Throw NotModelled
       | Some (start, dc) \<Rightarrow>
           let items = drop 2 args; ic = length items in
           if l + ic - dc > 9007199254740991 then Throw TypeError
           else
             Get this (KStr ''constructor'') (\<lambda>ctor.
             NewArray dc (\<lambda>arr.
             copy_items this arr (map (\<lambda>k. (start + k, k)) [0..<dc])
               (Put arr (KStr ''length'') (VNum (int dc)) (\<lambda>ok.
                  if \<not> ok then Throw TypeError
                  else
                    move_items this
                      (if ic < dc then map (\<lambda>k. (k + dc, k + ic)) [start..<l - dc]
                       else if dc < ic then
                         map (\<lambda>k. (k + dc - 1, k + ic - 1)) (rev [Suc start..<Suc (l - dc)])
                       else [])
                      (delete_items this
                         (if ic < dc then map (\<lambda>k. k - 1) (rev [Suc (l - dc + ic)..<Suc l]) else [])
                         (put_items this start items
                            (set_length this (l - dc + ic) arr))))))))"

definition array_method :: "string \<Rightarrow> val \<Rightarrow> val list \<Rightarrow> prog" where
  "array_method name this args =
     (if name = ''push'' then push_method this args
      else if name = ''pop'' then pop_method this
      else if name = ''shift'' then shift_method this
      else if name = ''unshift'' then unshift_method this args
      else if name = ''splice'' then splice_method this args
      else Throw NotModelled)"

definition native_call :: "nat \<Rightarrow> string \<Rightarrow> val \<Rightarrow> val list \<Rightarrow> state \<Rightarrow> val result" where
  "native_call n name this args st =
     (if name \<in> set search_methods then
        (case this of
           VObj a \<Rightarrow>
             (case heap st a of
                Some (Ordinary ob) \<Rightarrow>
                  (case native_search name ob args of
                     None \<Rightarrow> Inl NotModelled
                   | Some r \<Rightarrow> Inr (r, st))
              | _ \<Rightarrow> Inl NotModelled)
         | _ \<Rightarrow> Inl NotModelled)
      else run n (array_method name this args) st)"

type_synonym native = "string \<Rightarrow> val \<Rightarrow> val list \<Rightarrow> state \<Rightarrow> val result"

definition run_method :: "(string \<Rightarrow> val \<Rightarrow> val list \<Rightarrow> prog) \<Rightarrow> nat \<Rightarrow> native" where
  "run_method m n name this args st = run n (m name this args) st"

definition apply_native :: "native \<Rightarrow> val \<Rightarrow> val \<Rightarrow> val list \<Rightarrow> state \<Rightarrow> val result" where
  "apply_native native f this args st =
     (case f of
        VFun (ArrayProto name) \<Rightarrow> native name this args st
      | VFun (Instrumented name) \<Rightarrow> Inl NotModelled
      | _ \<Rightarrow> Inl TypeError)"

fun map_toRaw :: "nat \<Rightarrow> val list \<Rightarrow> state \<Rightarrow> (val list) result" where
  "map_toRaw n [] st = Inr ([], st)"
| "map_toRaw n (x # xs) st =
     bindr (toRaw n x st) (\<lambda>y st1.
     bindr (map_toRaw n xs st1) (\<lambda>ys st2. Inr (y # ys, st2)))"

definition track_indices :: "val \<Rightarrow> val \<Rightarrow> state \<Rightarrow> unit result" where
  "track_indices arr l st =
     (case l of
        VNum m \<Rightarrow>
          if m \<le> 0 then Inr ((), st)
          else
            (case arr of
               VObj a \<Rightarrow> Inr ((), foldl (\<lambda>s i. track a GET (KInt i) s) st [0..<nat m])
             | _ \<Rightarrow> Inl TypeError)
      | _ \<Rightarrow> Inr ((), st))"

definition search_instrumentation ::
  "native \<Rightarrow> nat \<Rightarrow> string \<Rightarrow> val \<Rightarrow> val list \<Rightarrow> state \<Rightarrow> val result" where
  "search_instrumentation native n name this args st =
     bindr (toRaw n this st) (\<lambda>arr st1.
     bindr (js_get n this (KStr ''length'') this st1) (\<lambda>l st2.
     bindr (track_indices arr l st2) (\<lambda>_ st3.
     bindr (js_get n arr (KStr name) arr st3) (\<lambda>f st4.
     bindr (apply_native native f arr args st4) (\<lambda>res st5.
       if res = VNum (- 1) \<or> res = VBool False then
         bindr (js_get n arr (KStr name) arr st5) (\<lambda>f' st6.
         bindr (map_toRaw n args st6) (\<lambda>rawArgs st7.
           apply_native native f' arr rawArgs st7))
       else Inr (res, st5))))))"

definition mutator_instrumentation ::
  "native \<Rightarrow> nat \<Rightarrow> string \<Rightarrow> val \<Rightarrow> val list \<Rightarrow> state \<Rightarrow> val result" where
  "mutator_instrumentation native n name this args st =
     bindr (toRaw n this (pauseTracking st)) (\<lambda>arr st1.
     bindr (js_get n arr (KStr name) arr st1) (\<lambda>f st2.
     bindr (apply_native native f this args st2) (\<lambda>res st3.
       Inr (res, resetTracking st3))))"

definition call_method ::
  "native \<Rightarrow> nat \<Rightarrow> val \<Rightarrow> string \<Rightarrow> val list \<Rightarrow> state \<Rightarrow> val result" where
  "call_method native n x name args st =
     bindr (js_get n x (KStr name) x st) (\<lambda>f st1.
       case f of
         VFun (Instrumented m) \<Rightarrow>
           if m \<in> set search_methods then search_instrumentation native n m x args st1
           else mutator_instrumentation native n m x args st1
       | VFun (ArrayProto m) \<Rightarrow> native m x args st1
       | _ \<Rightarrow> Inl TypeError)"

section \<open>Building states\<close>

definition init_state :: state where
  "init_state =
     \<lparr>heap = Map.empty, nxt = 0, reactiveMap = Map.empty, shallowReactiveMap = Map.empty,
      readonlyMap = Map.empty, shallowReadonlyMap = Map.empty, dev = True, activeEffect = True,
      shouldTrack = True, trackStack = [], deps = [], calls = []\<rparr>"

definition new_object :: "string \<Rightarrow> (key \<times> val) list \<Rightarrow> state \<Rightarrow> state" where
  "new_object rawType kvs st =
     st\<lparr>heap := (heap st)(nxt st \<mapsto>
            Ordinary \<lparr>raw_type = rawType, extensible = True, props = map_of kvs, len = 0\<rparr>),
        nxt := Suc (nxt st)\<rparr>"

definition new_array :: "val list \<Rightarrow> state \<Rightarrow> state" where
  "new_array xs st =
     st\<lparr>heap := (heap st)(nxt st \<mapsto>
            Ordinary \<lparr>raw_type = ''Array'', extensible = True,
                      props = map_of (zip (map KInt [0..<length xs]) xs), len = length xs\<rparr>),
        nxt := Suc (nxt st)\<rparr>"


section \<open>Variants, well-formed states and scenario helpers\<close>

text \<open>
  The four wrapper variants and their registries, the well-formedness of a registry, accessors
  on results, and the concrete states on which the properties below are run.
\<close>

datatype variant = MutableDeep | MutableShallow | ReadonlyDeep | ReadonlyShallow

fun wrap :: "getter \<Rightarrow> variant \<Rightarrow> val \<Rightarrow> state \<Rightarrow> val result" where
  "wrap get MutableDeep = reactive get"
| "wrap get MutableShallow = shallowReactive get"
| "wrap get ReadonlyDeep = readonly get"
| "wrap get ReadonlyShallow = shallowReadonly get"

fun variant_registry :: "variant \<Rightarrow> proxyMap" where
  "variant_registry MutableDeep = ReactiveMap"
| "variant_registry MutableShallow = ShallowReactiveMap"
| "variant_registry ReadonlyDeep = ReadonlyMap"
| "variant_registry ReadonlyShallow = ShallowReadonlyMap"

definition handlers_registry :: "handlers \<Rightarrow> proxyMap" where
  "handlers_registry hs = variant_map (get_isReadonly hs) (get_shallow hs)"

definition wf :: "state \<Rightarrow> bool" where
  "wf st \<longleftrightarrow>
     (\<forall>a c. heap st a = Some c \<longrightarrow> a < nxt st) \<and>
     (\<forall>p t hs. heap st p = Some (Proxy t hs) \<longrightarrow>
        t < p \<and> (\<exists>c. heap st t = Some c) \<and> registry (handlers_registry hs) st t = Some p) \<and>
     (\<forall>m t p. registry m st t = Some p \<longrightarrow>
        (\<exists>hs. heap st p = Some (Proxy t hs) \<and> handlers_registry hs = m))"

definition then_run :: "'a result \<Rightarrow> (state \<Rightarrow> 'b result) \<Rightarrow> 'b result" where
  "then_run m f = bindr m (\<lambda>_ st. f st)"

definition value_of :: "'a result \<Rightarrow> 'a option" where
  "value_of r = (case r of Inl e \<Rightarrow> None | Inr (v, st) \<Rightarrow> Some v)"

definition calls_of :: "'a result \<Rightarrow> event list" where
  "calls_of r = (case r of Inl e \<Rightarrow> [] | Inr (v, st) \<Rightarrow> calls st)"

definition deps_of :: "'a result \<Rightarrow> (nat \<times> key) list" where
  "deps_of r = (case r of Inl e \<Rightarrow> [] | Inr (v, st) \<Rightarrow> deps st)"


definition state_of :: "'a result \<Rightarrow> state" where
  "state_of r = (case r of Inl e \<Rightarrow> init_state | Inr (v, st) \<Rightarrow> st)"

definition plain_state :: state where
  "plain_state = new_object ''Object'' [] init_state"

definition marked_state :: state where
  "marked_state = state_of (markRaw (VObj 0) plain_state)"


definition record_state :: state where
  "record_state = new_object ''Object'' [(KStr ''a'', VNum 1)] init_state"

definition readonly_state :: state where
  "readonly_state = state_of (readonly (js_get 1) (VObj 0) record_state)"

definition production_state :: state where
  "production_state =
     state_of (readonly (js_get 1) (VObj 0)
       (new_object ''Object'' [(KStr ''a'', VNum 1)] (init_state\<lparr>dev := False\<rparr>)))"


definition wrapped_state :: state where
  "wrapped_state = state_of (reactive (js_get 1) (VObj 0) plain_state)"



definition not_wrapper :: "state \<Rightarrow> val \<Rightarrow> bool" where
  "not_wrapper st v =
     (case v of
        VObj b \<Rightarrow> (case heap st b of Some (Ordinary c) \<Rightarrow> True | _ \<Rightarrow> False)
      | _ \<Rightarrow> True)"

definition is_box :: "state \<Rightarrow> val \<Rightarrow> bool" where
  "is_box st v =
     (case v of
        VObj b \<Rightarrow>
          (case heap st b of
             Some (Ordinary c) \<Rightarrow> ordinary_get c (KStr ''__v_isRef'') = VBool True
           | _ \<Rightarrow> False)
      | _ \<Rightarrow> False)"

definition box_value :: "state \<Rightarrow> val \<Rightarrow> val" where
  "box_value st v =
     (case v of
        VObj b \<Rightarrow>
          (case heap st b of
             Some (Ordinary c) \<Rightarrow> ordinary_get c (KStr ''value'')
           | _ \<Rightarrow> VUndefined)
      | _ \<Rightarrow> VUndefined)"

definition new_box :: "val \<Rightarrow> state \<Rightarrow> state" where
  "new_box v = new_object ''Object'' [(KStr ''__v_isRef'', VBool True), (KStr ''value'', v)]"

definition box_state :: state where
  "box_state =
     state_of (reactive (js_get 1) (VObj 1)
       (new_object ''Object'' [(KStr ''count'', VObj 0)] (new_box (VNum 0) init_state)))"

definition symbol_state :: state where
  "symbol_state =
     state_of (reactive (js_get 1) (VObj 1)
       (new_object ''Object'' [(KSym (WellKnown ''unscopables''), VObj 0)]
         (new_object ''Object'' [] init_state)))"

definition array_state :: state where
  "array_state = state_of (reactive (js_get 1) (VObj 0) (new_array [VNum 7, VNum 8] init_state))"


definition record_wrapped_state :: state where
  "record_wrapped_state = state_of (reactive (js_get 1) (VObj 0) record_state)"


definition raw_value :: "state \<Rightarrow> val \<Rightarrow> bool" where
  "raw_value st v =
     (case v of
        VObj b \<Rightarrow>
          (case heap st b of
             Some (Ordinary c) \<Rightarrow> \<not> truthy (ordinary_get c RAW)
           | _ \<Rightarrow> False)
      | _ \<Rightarrow> True)"

definition own_flag :: "state \<Rightarrow> val \<Rightarrow> key \<Rightarrow> bool" where
  "own_flag st v k =
     (case v of
        VObj b \<Rightarrow>
          (case heap st b of
             Some (Ordinary c) \<Rightarrow> truthy (ordinary_get c k)
           | _ \<Rightarrow> False)
      | _ \<Rightarrow> False)"

definition readonly_box :: "state \<Rightarrow> val \<Rightarrow> bool" where
  "readonly_box st v =
     (case v of
        VObj q \<Rightarrow>
          (case heap st q of
             Some (Ordinary c) \<Rightarrow>
               ordinary_get c (KStr ''__v_isRef'') = VBool True \<and> truthy (ordinary_get c IS_READONLY)
           | Some (Proxy b hs) \<Rightarrow>
               get_isReadonly hs \<and> \<not> is_collection hs \<and> is_box st (VObj b)
           | None \<Rightarrow> False)
      | _ \<Rightarrow> False)"

definition receiver_base :: "state \<Rightarrow> val \<Rightarrow> nat option" where
  "receiver_base st r =
     (case r of
        VObj x \<Rightarrow>
          (case heap st x of
             Some (Ordinary c) \<Rightarrow> if truthy (ordinary_get c RAW) then None else Some x
           | Some (Proxy b hs) \<Rightarrow>
               (case heap st b of
                  Some (Ordinary c) \<Rightarrow>
                    if b < x \<and> registry (handlers_registry hs) st b = Some x \<and>
                       \<not> truthy (ordinary_get c RAW)
                    then Some b else None
                | _ \<Rightarrow> None)
           | None \<Rightarrow> None)
      | _ \<Rightarrow> None)"

definition hadKey_before :: "obj \<Rightarrow> key \<Rightarrow> bool" where
  "hadKey_before ob k =
     (if raw_type ob = ''Array'' \<and> isIntegerKey k
      then number_lt (key_Number k) (ordinary_get ob (KStr ''length''))
      else ordinary_hasOwn ob k)"


definition readonly_box_state :: state where
  "readonly_box_state =
     state_of (reactive (js_get 1) (VObj 1)
       (new_object ''Object'' [(KStr ''total'', VObj 0)]
         (new_object ''Object''
            [(KStr ''__v_isRef'', VBool True), (KStr ''value'', VNum 0), (IS_READONLY, VBool True)]
            init_state)))"


definition unwrap_arg :: "state \<Rightarrow> val \<Rightarrow> val" where
  "unwrap_arg st x = (case receiver_base st x of None \<Rightarrow> x | Some b \<Rightarrow> VObj b)"

definition tracked_reads :: "nat \<Rightarrow> nat \<Rightarrow> state \<Rightarrow> state" where
  "tracked_reads a l st =
     foldl (\<lambda>s i. track a GET (KInt i) s) (track a GET (KStr ''length'') st) [0..<l]"

definition mutable_array_wrapper :: "state \<Rightarrow> nat \<Rightarrow> nat \<Rightarrow> obj \<Rightarrow> bool" where
  "mutable_array_wrapper st w a ob \<longleftrightarrow>
     (case heap st w of
        Some (Proxy t hs) \<Rightarrow>
          t = a \<and> \<not> get_isReadonly hs \<and> \<not> is_collection hs \<and>
          registry (handlers_registry hs) st a = Some w
      | _ \<Rightarrow> False) \<and>
     a < w \<and> heap st a = Some (Ordinary ob) \<and> raw_type ob = ''Array'' \<and>
     props ob (KStr ''length'') = None \<and> props ob RAW = None \<and>
     (\<forall>s \<in> set search_methods \<union> set mutator_methods. props ob (KStr s) = None)"


definition nested_array_state :: state where
  "nested_array_state =
     state_of (reactive (js_get 1) (VObj 0)
       (state_of (reactive (js_get 1) (VObj 1)
         (new_array [VObj 0] (new_object ''Object'' [] init_state)))))"


text \<open>
  The length-mutating replacement method as the specification words it: the raw method invoked
  against the unwrapped array. It differs from \<open>mutator_instrumentation\<close>, which follows the
  source, in the \<open>this\<close> value of the call only.
\<close>

definition mutator_on_raw ::
  "native \<Rightarrow> nat \<Rightarrow> string \<Rightarrow> val \<Rightarrow> val list \<Rightarrow> state \<Rightarrow> val result" where
  "mutator_on_raw native n name this args st =
     bindr (toRaw n this (pauseTracking st)) (\<lambda>arr st1.
     bindr (js_get n arr (KStr name) arr st1) (\<lambda>f st2.
     bindr (apply_native native f arr args st2) (\<lambda>res st3.
       Inr (res, resetTracking st3))))"

fun add_triggers :: "nat \<Rightarrow> nat \<Rightarrow> val list \<Rightarrow> event list" where
  "add_triggers a l [] = []"
| "add_triggers a l (e # es) = Trigger a ADD (KInt l) e VUndefined # add_triggers a (Suc l) es"

definition growable :: "obj \<Rightarrow> bool" where
  "growable ob \<longleftrightarrow> extensible ob \<and> (\<forall>i. len ob \<le> i \<longrightarrow> props ob (KInt i) = None)"









text \<open>
  \<open>tracking_kept st st'\<close>: from \<open>st\<close> to \<open>st'\<close> the tracking flag and its stack are unchanged, and
  no dependency has been registered if tracking was off.
\<close>

definition tracking_kept :: "state \<Rightarrow> state \<Rightarrow> bool" where
  "tracking_kept st st' \<longleftrightarrow>
     shouldTrack st' = shouldTrack st \<and> trackStack st' = trackStack st \<and>
     (\<not> shouldTrack st \<longrightarrow> deps st' = deps st)"

definition keeps :: "'a result \<Rightarrow> state \<Rightarrow> bool" where
  "keeps r st = (case r of Inl e \<Rightarrow> True | Inr (v, st') \<Rightarrow> tracking_kept st st')"


text \<open>
  \<open>plain_array\<close>: an extensible array that holds primitive values only. \<open>array_inv st w a F\<close>:
  \<open>w\<close> is a mutable wrapper of such an array \<open>a\<close>, and the addresses in \<open>F\<close> are further
  extensible objects. \<open>finishes\<close>: the program returns a value.
\<close>

definition plain_array :: "obj \<Rightarrow> bool" where
  "plain_array ob \<longleftrightarrow>
     extensible ob \<and> len ob < 4294967296 \<and> (\<forall>k v. props ob k = Some v \<longrightarrow> \<not> isObject v)"

definition array_inv :: "state \<Rightarrow> nat \<Rightarrow> nat \<Rightarrow> nat set \<Rightarrow> bool" where
  "array_inv st w a F \<longleftrightarrow>
     (\<exists>ob. mutable_array_wrapper st w a ob \<and> plain_array ob) \<and>
     (\<forall>x \<in> F. x \<noteq> a \<and> x \<noteq> w \<and> (\<exists>c. heap st x = Some (Ordinary c) \<and> extensible c))"

definition finishes :: "nat \<Rightarrow> prog \<Rightarrow> state \<Rightarrow> bool" where
  "finishes n p st \<longleftrightarrow> (\<exists>res st'. run n p st = Inr (res, st'))"

section \<open>Basic evaluation lemmas\<close>

lemma bindr_Inl [simp]: "bindr (Inl e) f = Inl e"
  by (simp add: bindr_def)

lemma bindr_Inr [simp]: "bindr (Inr (v, st)) f = f v st"
  by (simp add: bindr_def)

lemma andr_Inr [simp]: "andr (Inr (b, st)) f = (if b then f st else Inr (False, st))"
  by (simp add: andr_def)

lemma andr_Inl [simp]: "andr (Inl e) f = Inl e"
  by (simp add: andr_def)

lemma notr_Inr [simp]: "notr (Inr (b, st)) = Inr (\<not> b, st)"
  by (simp add: notr_def)

lemma notr_Inl [simp]: "notr (Inl e) = Inl e"
  by (simp add: notr_def)

lemma lift_option_Some [simp]: "lift_option (Some x) st = Inr (x, st)"
  by (simp add: lift_option_def)

lemma lift_option_None [simp]: "lift_option None st = Inl TypeError"
  by (simp add: lift_option_def)

lemma get_step_ordinary [simp]:
  "heap st a = Some (Ordinary ob) \<Longrightarrow> get_step g (VObj a) k r st = Inr (ordinary_get ob k, st)"
  by (simp add: get_step_def)

lemma proxy_base_ordinary:
  "h a = Some (Ordinary ob) \<Longrightarrow> proxy_base (Suc n) h a = Some (a, ob)"
  by simp

lemma getTargetType_ordinary:
  assumes "heap st a = Some (Ordinary ob)"
  shows "getTargetType (js_get (Suc n)) (VObj a) st =
           Inr (if truthy (ordinary_get ob SKIP) \<or> \<not> extensible ob then INVALID
                else targetTypeMap (raw_type ob), st)"
  using assms
  by (simp add: getTargetType_def isExtensible_def toRawType_def)

lemma targetTypeMap_INVALID:
  "targetTypeMap s = INVALID \<longleftrightarrow>
     s \<notin> {''Object'', ''Array'', ''Map'', ''Set'', ''WeakMap'', ''WeakSet''}"
  by (simp add: targetTypeMap_def)

lemma then_run_Inr [simp]: "then_run (Inr (v, st)) f = f st"
  by (simp add: then_run_def)

lemma then_run_Inl [simp]: "then_run (Inl e) f = Inl e"
  by (simp add: then_run_def)

lemma value_of_Inr [simp]: "value_of (Inr (v, st)) = Some v"
  by (simp add: value_of_def)

lemma calls_of_Inr [simp]: "calls_of (Inr (v, st)) = calls st"
  by (simp add: calls_of_def)

section \<open>Classification and the skip marker\<close>

lemma wrap_marked_raw:
  assumes h: "heap st a = Some (Ordinary ob)"
    and m: "truthy (ordinary_get ob SKIP)"
    and r: "registry (variant_registry v) st a = None"
  shows "wrap (js_get (Suc n)) v (VObj a) st = Inr (VObj a, st)"
  using h m r
  by (cases v)
     (simp_all add: reactive_def shallowReactive_def readonly_def shallowReadonly_def
        isReadonly_def createReactiveObject_def getTargetType_def map_get_def)

lemma define_own_SKIP:
  "define_own ob SKIP (VBool True) = Inr (Some ob') \<Longrightarrow> ordinary_get ob' SKIP = VBool True"
  by (auto simp: define_own_def ordinary_get_def split: if_splits)

lemma markRaw_ordinary:
  assumes h: "heap st a = Some (Ordinary ob)"
    and m: "markRaw (VObj a) st = Inr (x, st')"
  shows "\<exists>ob'. heap st' a = Some (Ordinary ob') \<and> truthy (ordinary_get ob' SKIP) \<and>
           x = VObj a \<and> (\<forall>pm. registry pm st' = registry pm st)"
proof -
  from h m obtain ob' where d: "define_own ob SKIP (VBool True) = Inr (Some ob')"
    and s: "st' = st\<lparr>heap := (heap st)(a \<mapsto> Ordinary ob')\<rparr>" and x: "x = VObj a"
    by (auto simp: markRaw_def split: option.splits sum.splits)
  have "\<forall>pm. registry pm st' = registry pm st"
    by (simp add: s registry_def split: proxyMap.splits)
  with d s x show ?thesis
    by (simp add: define_own_SKIP)
qed


text \<open>
  Claim C10 (as amended). For a raw heap object, \<open>getTargetType\<close> answers \<open>INVALID\<close> exactly
  when the skip marker \<open>__v_skip\<close> is truthy, or the object is not extensible, or its raw type is
  none of Object, Array, Map, Set, WeakMap, WeakSet (otherwise COMMON for Object and Array and
  COLLECTION for the four collection kinds). After \<open>markRaw\<close>, a wrap request at a variant whose
  registry holds no wrapper for the object returns the object itself and leaves the state as it
  was, so every later request of that kind does the same.
\<close>

theorem classify_and_skip_marker:
  assumes h: "heap st a = Some (Ordinary ob)"
  shows "getTargetType (js_get (Suc n)) (VObj a) st =
           Inr (if truthy (ordinary_get ob SKIP) \<or> \<not> extensible ob \<or>
                   raw_type ob \<notin> {''Object'', ''Array'', ''Map'', ''Set'', ''WeakMap'', ''WeakSet''}
                then INVALID
                else if raw_type ob \<in> {''Object'', ''Array''} then COMMON else COLLECTION, st) \<and>
         (\<forall>v st'. markRaw (VObj a) st = Inr (VObj a, st') \<and>
              registry (variant_registry v) st a = None \<longrightarrow>
            wrap (js_get (Suc n)) v (VObj a) st' = Inr (VObj a, st'))"
proof (intro conjI allI impI)
  show "getTargetType (js_get (Suc n)) (VObj a) st =
           Inr (if truthy (ordinary_get ob SKIP) \<or> \<not> extensible ob \<or>
                   raw_type ob \<notin> {''Object'', ''Array'', ''Map'', ''Set'', ''WeakMap'', ''WeakSet''}
                then INVALID
                else if raw_type ob \<in> {''Object'', ''Array''} then COMMON else COLLECTION, st)"
    using h by (simp add: getTargetType_ordinary targetTypeMap_def del: js_get.simps)
next
  fix v st'
  assume a: "markRaw (VObj a) st = Inr (VObj a, st') \<and> registry (variant_registry v) st a = None"
  then obtain ob' where o: "heap st' a = Some (Ordinary ob')" "truthy (ordinary_get ob' SKIP)"
    "registry (variant_registry v) st' = registry (variant_registry v) st"
    using markRaw_ordinary [OF h] by blast
  with a show "wrap (js_get (Suc n)) v (VObj a) st' = Inr (VObj a, st')"
    by (intro wrap_marked_raw) auto
qed

theorem classify_and_skip_marker_witness:
  "getTargetType (js_get (Suc 0)) (VObj 0) plain_state = Inr (COMMON, plain_state) \<and>
   wrap (js_get (Suc 0)) MutableDeep (VObj 0) marked_state = Inr (VObj 0, marked_state)"
proof -
  let ?ob = "\<lparr>raw_type = ''Object'', extensible = True, props = map_of [], len = 0\<rparr>"
  have h: "heap plain_state 0 = Some (Ordinary ?ob)"
    by (simp add: plain_state_def new_object_def init_state_def)
  have m: "markRaw (VObj 0) plain_state = Inr (VObj 0, marked_state)"
    by (simp add: marked_state_def state_of_def markRaw_def define_own_def plain_state_def
        new_object_def init_state_def)
  have r: "registry (variant_registry MutableDeep) plain_state 0 = None"
    by (simp add: registry_def plain_state_def new_object_def init_state_def)
  note t = classify_and_skip_marker [OF h, of 0]
  have a: "getTargetType (js_get (Suc 0)) (VObj 0) plain_state = Inr (COMMON, plain_state)"
    using t by (simp add: ordinary_get_def)
  have b: "wrap (js_get (Suc 0)) MutableDeep (VObj 0) marked_state = Inr (VObj 0, marked_state)"
    using t m r by blast
  from a b show ?thesis by blast
qed

text \<open>
  The claim as stated fails when the object was wrapped before it was marked: the registry is
  consulted before the classifier, so the wrapper made earlier is still returned. Object 0 is
  wrapped (wrapper 1), then marked, then wrapped again.
\<close>

theorem markRaw_after_wrap_counterexample:
  "value_of (then_run (then_run (reactive (js_get 1) (VObj 0) plain_state) (markRaw (VObj 0)))
      (reactive (js_get 1) (VObj 0))) = Some (VObj 1)"
  by (simp add: plain_state_def new_object_def init_state_def reactive_def isReadonly_def
      createReactiveObject_def getTargetType_def get_step_def ordinary_get_def isExtensible_def
      toRawType_def targetTypeMap_def map_get_def registry_def map_set_def markRaw_def define_own_def
      createGetter_def variant_map_def)

section \<open>Readonly wrappers reject writes\<close>

lemma heap_warn [simp]: "heap (warn msg st) = heap st"
  by (simp add: warn_def)

lemma calls_warn [simp]: "calls (warn msg st) = calls st @ [Warn msg]"
  by (simp add: warn_def)

text \<open>
  Claim C6 (as amended). The set and delete traps of a readonly or shallow-readonly wrapper
  return \<open>True\<close> for every key, value and receiver, leave the heap (hence the raw value) as it
  was, and call \<open>warn\<close> once when the build flag \<open>__DEV__\<close> is set and not at all otherwise.
\<close>

theorem readonly_rejects_writes:
  assumes "heap st w = Some (Proxy t hs)"
    and "hs = ReadonlyHandlers \<or> hs = ShallowReadonlyHandlers"
  shows "(\<exists>st'. js_set (Suc n) (VObj w) k v r st = Inr (True, st') \<and> heap st' = heap st \<and>
            calls st' = calls st @
              (if dev st then [Warn ''Set operation on key failed: target is readonly.''] else [])) \<and>
         (\<exists>st'. js_delete (Suc n) (VObj w) k st = Inr (True, st') \<and> heap st' = heap st \<and>
            calls st' = calls st @
              (if dev st then [Warn ''Delete operation on key failed: target is readonly.''] else []))"
  using assms
  by (auto simp: set_step_def delete_step_def readonly_set_def readonly_deleteProperty_def)

theorem readonly_rejects_writes_witness:
  "heap readonly_state 1 = Some (Proxy 0 ReadonlyHandlers) \<and>
   value_of (js_set (Suc 0) (VObj 1) (KStr ''a'') (VNum 2) (VObj 1) readonly_state) = Some True \<and>
   heap (state_of (js_set (Suc 0) (VObj 1) (KStr ''a'') (VNum 2) (VObj 1) readonly_state)) =
     heap readonly_state \<and>
   value_of (js_delete (Suc 0) (VObj 1) (KStr ''b'') readonly_state) = Some True"
proof -
  have h: "heap readonly_state 1 = Some (Proxy 0 ReadonlyHandlers)"
    by (simp add: readonly_state_def record_state_def new_object_def init_state_def state_of_def
        readonly_def createReactiveObject_def get_step_def ordinary_get_def map_get_def
        registry_def map_set_def getTargetType_def isExtensible_def toRawType_def targetTypeMap_def)
  from readonly_rejects_writes [OF h, where n = 0 and k = "KStr ''a''" and v = "VNum 2" and r = "VObj 1"]
  obtain st' where a: "js_set (Suc 0) (VObj 1) (KStr ''a'') (VNum 2) (VObj 1) readonly_state = Inr (True, st')"
    "heap st' = heap readonly_state"
    by blast
  from readonly_rejects_writes [OF h, where n = 0 and k = "KStr ''b''"]
  obtain st'' where b: "js_delete (Suc 0) (VObj 1) (KStr ''b'') readonly_state = Inr (True, st'')"
    by blast
  from h a b show ?thesis
    by (simp add: state_of_def del: js_set.simps js_delete.simps)
qed

text \<open>
  The claim as stated promises a warning on every rejected write. In a production build
  (\<open>__DEV__\<close> false) the trap returns \<open>True\<close> and nothing is reported.
\<close>

theorem readonly_write_no_warning_counterexample:
  "value_of (js_set 1 (VObj 1) (KStr ''a'') (VNum 2) (VObj 1) production_state) = Some True \<and>
   calls_of (js_set 1 (VObj 1) (KStr ''a'') (VNum 2) (VObj 1) production_state) = []"
  by (simp add: production_state_def new_object_def init_state_def state_of_def
        readonly_def createReactiveObject_def get_step_def ordinary_get_def map_get_def
        registry_def map_set_def getTargetType_def isExtensible_def toRawType_def targetTypeMap_def
        set_step_def readonly_set_def)

section \<open>The wrap factory\<close>

lemma wf_heap_bound: "wf st \<Longrightarrow> heap st a = Some c \<Longrightarrow> a < nxt st"
  by (auto simp: wf_def)

lemma wf_registry:
  "wf st \<Longrightarrow> registry m st t = Some p \<Longrightarrow>
     \<exists>hs. heap st p = Some (Proxy t hs) \<and> handlers_registry hs = m"
  unfolding wf_def by blast

lemma wf_proxy:
  "wf st \<Longrightarrow> heap st p = Some (Proxy t hs) \<Longrightarrow>
     t < p \<and> (\<exists>c. heap st t = Some c) \<and> registry (handlers_registry hs) st t = Some p"
  unfolding wf_def by blast

lemma get_step_proxy_IS_READONLY [simp]:
  "heap st p = Some (Proxy t hs) \<Longrightarrow>
     get_step g (VObj p) IS_READONLY r st = Inr (VBool (get_isReadonly hs), st)"
  by (simp add: get_step_def collection_get_def createGetter_def)

lemma get_step_proxy_IS_REACTIVE [simp]:
  "heap st p = Some (Proxy t hs) \<Longrightarrow>
     get_step g (VObj p) IS_REACTIVE r st = Inr (VBool (\<not> get_isReadonly hs), st)"
  by (simp add: get_step_def collection_get_def createGetter_def)

lemma get_step_proxy_IS_SHALLOW [simp]:
  "heap st p = Some (Proxy t hs) \<Longrightarrow>
     get_step g (VObj p) IS_SHALLOW r st = Inr (VBool (get_shallow hs), st)"
  by (simp add: get_step_def collection_get_def createGetter_def)

lemma get_step_proxy_RAW [simp]:
  "heap st p = Some (Proxy t hs) \<Longrightarrow> registry (handlers_registry hs) st t = Some p \<Longrightarrow>
     get_step g (VObj p) RAW (VObj p) st = Inr (VObj t, st)"
  by (simp add: get_step_def collection_get_def createGetter_def map_get_def handlers_registry_def)

lemma createReactiveObject_registered:
  assumes "heap st p = Some (Proxy t hs)"
    and "registry (handlers_registry hs) st t = Some p"
    and "ro \<longrightarrow> get_isReadonly hs"
  shows "createReactiveObject (get_step g) (VObj p) ro base coll pm st = Inr (VObj p, st)"
  using assms by (simp add: createReactiveObject_def)

lemma createReactiveObject_raw:
  assumes "heap st a = Some (Ordinary ob)"
  shows "createReactiveObject (get_step g) (VObj a) ro base coll pm st =
     (if truthy (ordinary_get ob RAW) \<and> \<not> (ro \<and> truthy (ordinary_get ob IS_REACTIVE))
      then Inr (VObj a, st)
      else case registry pm st a of
        Some p \<Rightarrow> Inr (VObj p, st)
      | None \<Rightarrow>
          if truthy (ordinary_get ob SKIP) \<or> \<not> extensible ob \<or> targetTypeMap (raw_type ob) = INVALID
          then Inr (VObj a, st)
          else Inr (VObj (nxt st),
                 map_set pm a (nxt st)
                   (st\<lparr>heap := (heap st)(nxt st \<mapsto>
                          Proxy a (if targetTypeMap (raw_type ob) = COLLECTION then coll else base)),
                       nxt := Suc (nxt st)\<rparr>)))"
  using assms
  by (simp add: createReactiveObject_def map_get_def getTargetType_def isExtensible_def
      toRawType_def Let_def split: option.splits)

lemma registry_map_set [simp]:
  "registry pm (map_set pm a p st) = (registry pm st)(a \<mapsto> p)"
  by (cases pm) (simp_all add: registry_def map_set_def)

lemma heap_map_set [simp]: "heap (map_set pm a p st) = heap st"
  by (cases pm) (simp_all add: map_set_def)

lemma createReactiveObject_idem:
  assumes w: "wf st" and h: "heap st a = Some (Ordinary ob)"
    and par: "handlers_registry base = pm" "handlers_registry coll = pm"
      "get_isReadonly base = ro" "get_isReadonly coll = ro"
      "\<not> is_collection base" "is_collection coll"
  shows "\<exists>x st1.
      createReactiveObject (get_step g) (VObj a) ro base coll pm st = Inr (x, st1) \<and>
      createReactiveObject (get_step g) x ro base coll pm st1 = Inr (x, st1) \<and>
      createReactiveObject (get_step g) (VObj a) ro base coll pm st1 = Inr (x, st1) \<and>
      heap st1 a = Some (Ordinary ob) \<and>
      (registry pm st a \<noteq> None \<longrightarrow> st1 = st) \<and>
      (x = VObj a \<and> st1 = st \<or>
       (\<exists>p hs. x = VObj p \<and> heap st1 p = Some (Proxy a hs) \<and> (hs = base \<or> hs = coll) \<and>
          registry pm st1 a = Some p))"
proof (cases "truthy (ordinary_get ob RAW) \<and> \<not> (ro \<and> truthy (ordinary_get ob IS_REACTIVE))")
  case True
  with h show ?thesis
    by (simp add: createReactiveObject_raw)
next
  case nf0: False
  then have nf: "(truthy (ordinary_get ob RAW) \<and> \<not> (ro \<and> truthy (ordinary_get ob IS_REACTIVE))) = False"
    by simp
  show ?thesis
  proof (cases "registry pm st a")
    case (Some p)
    from wf_registry [OF w Some] obtain hs where
      p: "heap st p = Some (Proxy a hs)" "handlers_registry hs = pm" by blast
    from wf_proxy [OF w p(1)] have lt: "a < p" by simp
    have hs: "hs = base \<or> hs = coll"
      using p(2) par by (cases hs; cases base; cases coll)
        (auto simp: handlers_registry_def variant_map_def split: if_splits)
    then have ro: "ro \<longrightarrow> get_isReadonly hs" using par by auto
    have c2: "createReactiveObject (get_step g) (VObj p) ro base coll pm st = Inr (VObj p, st)"
      using p Some ro by (intro createReactiveObject_registered) auto
    have c1: "createReactiveObject (get_step g) (VObj a) ro base coll pm st = Inr (VObj p, st)"
      using h Some nf0 by (auto simp: createReactiveObject_raw)
    from c1 c2 h p(1) hs Some show ?thesis by blast
  next
    case None
    show ?thesis
    proof (cases "truthy (ordinary_get ob SKIP) \<or> \<not> extensible ob \<or>
        targetTypeMap (raw_type ob) = INVALID")
      case True
      with h None nf0 show ?thesis
        by (auto simp: createReactiveObject_raw)
    next
      case f0: False
      then have False: "(truthy (ordinary_get ob SKIP) \<or> \<not> extensible ob \<or>
        targetTypeMap (raw_type ob) = INVALID) = False" by simp
      let ?p = "nxt st"
      let ?hs = "if targetTypeMap (raw_type ob) = COLLECTION then coll else base"
      let ?st1 = "map_set pm a ?p (st\<lparr>heap := (heap st)(?p \<mapsto> Proxy a ?hs), nxt := Suc ?p\<rparr>)"
      from wf_heap_bound [OF w h] have ne: "a \<noteq> ?p" by simp
      have c1: "createReactiveObject (get_step g) (VObj a) ro base coll pm st = Inr (VObj ?p, ?st1)"
        using h None nf0 f0 by (auto simp: createReactiveObject_raw)
      have h1: "heap ?st1 a = Some (Ordinary ob)" using h ne by simp
      have p1: "heap ?st1 ?p = Some (Proxy a ?hs)" by simp
      have r1: "registry pm ?st1 a = Some ?p" by simp
      have hr: "handlers_registry ?hs = pm" using par by simp
      have ro: "ro \<longrightarrow> get_isReadonly ?hs" using par by simp
      have c2: "createReactiveObject (get_step g) (VObj ?p) ro base coll pm ?st1 = Inr (VObj ?p, ?st1)"
        using p1 r1 hr ro by (intro createReactiveObject_registered) auto
      have c3: "createReactiveObject (get_step g) (VObj a) ro base coll pm ?st1 = Inr (VObj ?p, ?st1)"
        using h1 r1 nf0 by (auto simp: createReactiveObject_raw simp del: heap_map_set registry_map_set)
      have n: "registry pm st a \<noteq> None \<longrightarrow> ?st1 = st" using None by simp
      have e: "VObj ?p = VObj a \<and> ?st1 = st \<or>
        (\<exists>p hs. VObj ?p = VObj p \<and> heap ?st1 p = Some (Proxy a hs) \<and> (hs = base \<or> hs = coll) \<and>
           registry pm ?st1 a = Some p)"
      proof (rule disjI2, intro exI conjI)
        show "heap ?st1 ?p = Some (Proxy a ?hs)" by (rule p1)
        show "?hs = base \<or> ?hs = coll" by simp
        show "registry pm ?st1 a = Some ?p" by (rule r1)
      qed (rule refl)
      show ?thesis
        by (rule exI [where x = "VObj ?p"], rule exI [where x = ?st1], intro conjI)
           (rule c1 c2 c3 h1 n e)+
    qed
  qed
qed


lemma isReadonly_ordinary:
  "heap st a = Some (Ordinary ob) \<Longrightarrow>
     isReadonly (get_step g) (VObj a) st = Inr (truthy (ordinary_get ob IS_READONLY), st)"
  by (simp add: isReadonly_def)

lemma isReadonly_proxy:
  "heap st p = Some (Proxy t hs) \<Longrightarrow>
     isReadonly (get_step g) (VObj p) st = Inr (get_isReadonly hs, st)"
  by (simp add: isReadonly_def)

text \<open>
  Claim C1. In a well-formed state, for a raw heap object and each of the four variants, the
  wrap request returns; wrapping its result again at the same variant returns that same result
  and changes nothing; a second request for the raw object returns the identical result; a
  registry hit builds nothing; and a wrapper that is returned is the registry's entry for the
  raw object.
\<close>

theorem wrap_idempotent:
  assumes w: "wf st" and h: "heap st a = Some (Ordinary ob)"
  shows "\<exists>x st1.
      wrap (js_get (Suc n)) v (VObj a) st = Inr (x, st1) \<and>
      wrap (js_get (Suc n)) v x st1 = Inr (x, st1) \<and>
      wrap (js_get (Suc n)) v (VObj a) st1 = Inr (x, st1) \<and>
      (registry (variant_registry v) st a \<noteq> None \<longrightarrow> st1 = st) \<and>
      (x = VObj a \<and> st1 = st \<or>
       (\<exists>p. x = VObj p \<and> registry (variant_registry v) st1 a = Some p))"
proof (cases v)
  case MutableShallow
  from createReactiveObject_idem [OF w h, of ShallowReactiveHandlers ShallowReactiveMap
      ShallowCollectionHandlers False "js_get n"]
  show ?thesis
    unfolding MutableShallow
    by (simp add: shallowReactive_def handlers_registry_def variant_map_def) blast
next
  case ReadonlyDeep
  from createReactiveObject_idem [OF w h, of ReadonlyHandlers ReadonlyMap
      ReadonlyCollectionHandlers True "js_get n"]
  show ?thesis
    unfolding ReadonlyDeep
    by (simp add: readonly_def handlers_registry_def variant_map_def) blast
next
  case ReadonlyShallow
  from createReactiveObject_idem [OF w h, of ShallowReadonlyHandlers ShallowReadonlyMap
      ShallowReadonlyCollectionHandlers True "js_get n"]
  show ?thesis
    unfolding ReadonlyShallow
    by (simp add: shallowReadonly_def handlers_registry_def variant_map_def) blast
next
  case MutableDeep
  show ?thesis
  proof (cases "truthy (ordinary_get ob IS_READONLY)")
    case True
    with h have "reactive (get_step (js_get n)) (VObj a) st = Inr (VObj a, st)"
      by (simp add: reactive_def isReadonly_ordinary)
    then show ?thesis unfolding MutableDeep by simp
  next
    case False
    let ?C = "\<lambda>x. createReactiveObject (get_step (js_get n)) x False MutableHandlers
                 MutableCollectionHandlers ReactiveMap"
    from createReactiveObject_idem [OF w h, of MutableHandlers ReactiveMap
        MutableCollectionHandlers False "js_get n"]
    obtain x st1 where c: "?C (VObj a) st = Inr (x, st1)" "?C x st1 = Inr (x, st1)"
      "?C (VObj a) st1 = Inr (x, st1)" "heap st1 a = Some (Ordinary ob)"
      "registry ReactiveMap st a \<noteq> None \<longrightarrow> st1 = st"
      and d: "x = VObj a \<and> st1 = st \<or>
        (\<exists>p hs. x = VObj p \<and> heap st1 p = Some (Proxy a hs) \<and>
           (hs = MutableHandlers \<or> hs = MutableCollectionHandlers) \<and>
           registry ReactiveMap st1 a = Some p)"
      by (simp add: handlers_registry_def variant_map_def) blast
    have r1: "reactive (get_step (js_get n)) (VObj a) st = Inr (x, st1)"
      using h False c(1) by (simp add: reactive_def isReadonly_ordinary)
    have r3: "reactive (get_step (js_get n)) (VObj a) st1 = Inr (x, st1)"
      using c(4) False c(3) by (simp add: reactive_def isReadonly_ordinary)
    have r2: "reactive (get_step (js_get n)) x st1 = Inr (x, st1)"
      using d
    proof
      assume "x = VObj a \<and> st1 = st"
      with r3 show ?thesis by simp
    next
      assume "\<exists>p hs. x = VObj p \<and> heap st1 p = Some (Proxy a hs) \<and>
           (hs = MutableHandlers \<or> hs = MutableCollectionHandlers) \<and>
           registry ReactiveMap st1 a = Some p"
      then obtain p hs where x: "x = VObj p" "heap st1 p = Some (Proxy a hs)"
        "hs = MutableHandlers \<or> hs = MutableCollectionHandlers" by blast
      then have "isReadonly (get_step (js_get n)) (VObj p) st1 = Inr (False, st1)"
        by (auto simp: isReadonly_proxy)
      with c(2) x(1) show ?thesis by (simp add: reactive_def)
    qed
    from r1 r2 r3 c(5) d show ?thesis unfolding MutableDeep by simp blast
  qed
qed

lemma plain_state_eq:
  "plain_state =
     \<lparr>heap = [0 \<mapsto> Ordinary \<lparr>raw_type = ''Object'', extensible = True, props = Map.empty, len = 0\<rparr>],
      nxt = 1, reactiveMap = Map.empty, shallowReactiveMap = Map.empty,
      readonlyMap = Map.empty, shallowReadonlyMap = Map.empty, dev = True, activeEffect = True,
      shouldTrack = True, trackStack = [], deps = [], calls = []\<rparr>"
  by (simp add: plain_state_def new_object_def init_state_def)


lemma wf_plain_state: "wf plain_state"
  by (auto simp: wf_def plain_state_eq registry_def split: proxyMap.splits if_splits)


theorem wrap_idempotent_witness:
  "wrap (js_get (Suc 0)) MutableDeep (VObj 0) plain_state = Inr (VObj 1, wrapped_state) \<and>
   wrap (js_get (Suc 0)) MutableDeep (VObj 1) wrapped_state = Inr (VObj 1, wrapped_state) \<and>
   wrap (js_get (Suc 0)) MutableDeep (VObj 0) wrapped_state = Inr (VObj 1, wrapped_state)"
proof -
  let ?ob = "\<lparr>raw_type = ''Object'', extensible = True, props = Map.empty, len = 0\<rparr>"
  have h: "heap plain_state 0 = Some (Ordinary ?ob)"
    by (simp add: plain_state_eq)
  from wrap_idempotent [OF wf_plain_state h, of 0 MutableDeep]
  obtain x st1 where a: "wrap (js_get (Suc 0)) MutableDeep (VObj 0) plain_state = Inr (x, st1)"
    "wrap (js_get (Suc 0)) MutableDeep x st1 = Inr (x, st1)"
    "wrap (js_get (Suc 0)) MutableDeep (VObj 0) st1 = Inr (x, st1)"
    by blast
  have f: "wrap (js_get (Suc 0)) MutableDeep (VObj 0) plain_state = Inr (VObj 1, wrapped_state)"
    by (simp add: wrapped_state_def state_of_def plain_state_eq reactive_def isReadonly_def
      createReactiveObject_def get_step_def ordinary_get_def map_get_def registry_def map_set_def
      getTargetType_def isExtensible_def toRawType_def targetTypeMap_def)
  from a(1) f have "x = VObj 1" "st1 = wrapped_state" by simp_all
  with a f show ?thesis by simp
qed

section \<open>Readonly layered over mutable\<close>


lemma registry_heap_update [simp]:
  "registry m (st\<lparr>heap := h, nxt := k\<rparr>) = registry m st"
  by (cases m) (simp_all add: registry_def)

lemma registry_track [simp]: "registry m (track t ty k st) = registry m st"
  by (cases m) (simp_all add: registry_def track_def)

lemma heap_track [simp]: "heap (track t ty k st) = heap st"
  by (simp add: track_def)

lemma nxt_track [simp]: "nxt (track t ty k st) = nxt st"
  by (simp add: track_def)

lemma nxt_map_set [simp]: "nxt (map_set pm a p st) = nxt st"
  by (cases pm) (simp_all add: map_set_def)

lemma proxy_base_proxy:
  "h p = Some (Proxy a hs) \<Longrightarrow> h a = Some (Ordinary ob) \<Longrightarrow> 0 < n \<Longrightarrow>
     proxy_base (Suc n) h p = Some (a, ob)"
  by (cases n) simp_all

lemma isRef_primitive:
  "\<not> isObject v \<Longrightarrow> isRef (get_step g) v st = Inr (False, st)"
  by (cases v) (simp_all add: isRef_def get_step_def)

lemma isArray_ordinary:
  "heap st t = Some (Ordinary ob) \<Longrightarrow> isArray st t = Some (raw_type ob = ''Array'')"
  by (simp add: isArray_def)

lemma createGetter_ordinary:
  assumes "heap st t = Some (Ordinary ob)"
    and "k \<noteq> IS_REACTIVE" "k \<noteq> IS_READONLY" "k \<noteq> IS_SHALLOW"
    and "\<not> (k = RAW \<and> r = map_get (variant_map ro sh) st t)"
    and "\<not> (\<not> ro \<and> raw_type ob = ''Array'' \<and> arrayInstrumentations_hasOwn k)"
  shows "createGetter (get_step g) ro sh t k r st =
      (if (if isSymbol k then builtInSymbols_has k else isNonTrackableKeys k)
       then Inr (ordinary_get ob k, st)
       else let st2 = (if \<not> ro then track t GET k st else st) in
         if sh then Inr (ordinary_get ob k, st2)
         else bindr (isRef (get_step g) (ordinary_get ob k) st2) (\<lambda>r st3.
                if r then
                  (if raw_type ob = ''Array'' \<and> isIntegerKey k then Inr (ordinary_get ob k, st3)
                   else get_step g (ordinary_get ob k) (KStr ''value'') (ordinary_get ob k) st3)
                else if isObject (ordinary_get ob k) then
                  (if ro then readonly (get_step g) (ordinary_get ob k) st3
                   else reactive (get_step g) (ordinary_get ob k) st3)
                else Inr (ordinary_get ob k, st3)))"
proof -
  have a: "(k = RAW \<and> r = map_get (variant_map ro sh) st t) = False" using assms by simp
  have b: "(\<not> ro \<and> raw_type ob = ''Array'' \<and> arrayInstrumentations_hasOwn k) = False"
    using assms by simp
  have f: "(k = IS_REACTIVE) = False" "(k = IS_READONLY) = False" "(k = IS_SHALLOW) = False"
    using assms by simp_all
  show ?thesis
    by (simp only: createGetter_def f a if_False isArray_ordinary [OF assms(1)] option.case b
        get_step_ordinary [OF assms(1)] bindr_Inr Let_def)
qed

lemma createGetter_ordinary_primitive:
  assumes "heap st t = Some (Ordinary ob)"
    and "\<not> isObject (ordinary_get ob k)"
    and "k \<noteq> IS_REACTIVE" "k \<noteq> IS_READONLY" "k \<noteq> IS_SHALLOW"
    and "\<not> (k = RAW \<and> r = map_get (variant_map ro sh) st t)"
    and "\<not> (\<not> ro \<and> raw_type ob = ''Array'' \<and> arrayInstrumentations_hasOwn k)"
  shows "createGetter (get_step g) ro sh t k r st =
           Inr (ordinary_get ob k,
             if \<not> ro \<and> \<not> (if isSymbol k then builtInSymbols_has k else isNonTrackableKeys k)
             then track t GET k st else st)"
  by (simp add: createGetter_ordinary [OF assms(1,3-7)] isRef_primitive [OF assms(2)] assms(2))

lemma toRaw_ordinary:
  "heap st a = Some (Ordinary ob) \<Longrightarrow> \<not> truthy (ordinary_get ob RAW) \<Longrightarrow>
     toRaw (Suc (Suc n)) (VObj a) st = Inr (VObj a, st)"
  by simp

lemma toRaw_registered:
  "heap st p = Some (Proxy t hs) \<Longrightarrow> registry (handlers_registry hs) st t = Some p \<Longrightarrow>
     toRaw (Suc (Suc n)) (VObj p) st = toRaw (Suc n) (VObj t) st"
  by simp





section \<open>Reads: tracking and conversion of the result\<close>

lemma calls_map_set [simp]: "calls (map_set pm a p st) = calls st"
  by (cases pm) (simp_all add: map_set_def)

lemma calls_track [simp]: "calls (track t ty k st) = calls st @ [Track t ty k]"
  by (simp add: track_def)

lemma createReactiveObject_raw_calls:
  assumes "heap st b = Some (Ordinary c)"
  shows "\<exists>x st'. createReactiveObject (get_step g) (VObj b) ro base coll pm st = Inr (x, st') \<and>
           calls st' = calls st"
  by (simp add: createReactiveObject_raw [OF assms] split: option.splits)

lemma reactive_raw_calls:
  assumes "heap st b = Some (Ordinary c)"
  shows "\<exists>x st'. reactive (get_step g) (VObj b) st = Inr (x, st') \<and> calls st' = calls st"
  using createReactiveObject_raw_calls [OF assms]
  by (simp add: reactive_def isReadonly_ordinary [OF assms])

lemma readonly_raw_calls:
  assumes "heap st b = Some (Ordinary c)"
  shows "\<exists>x st'. readonly (get_step g) (VObj b) st = Inr (x, st') \<and> calls st' = calls st"
  using createReactiveObject_raw_calls [OF assms]
  by (simp add: readonly_def)

lemma isRef_ordinary:
  "heap st b = Some (Ordinary c) \<Longrightarrow>
     isRef (get_step g) (VObj b) st = Inr (ordinary_get c (KStr ''__v_isRef'') = VBool True, st)"
  by (simp add: isRef_def)

lemma isRef_not_wrapper:
  "not_wrapper st v \<Longrightarrow> isRef (get_step g) v st = Inr (is_box st v, st)"
  by (cases v)
     (auto simp: not_wrapper_def is_box_def isRef_ordinary isRef_primitive
        split: option.splits cell.splits)

lemma box_value_read:
  "is_box st v \<Longrightarrow> get_step g v (KStr ''value'') v st = Inr (box_value st v, st)"
  by (cases v) (auto simp: is_box_def box_value_def split: option.splits cell.splits)

lemma not_wrapper_track [simp]: "not_wrapper (track t ty k st) v = not_wrapper st v"
  by (simp add: not_wrapper_def split: val.splits)

lemma is_box_track [simp]: "is_box (track t ty k st) v = is_box st v"
  by (simp add: is_box_def split: val.splits)

lemma box_value_track [simp]: "box_value (track t ty k st) v = box_value st v"
  by (simp add: box_value_def split: val.splits)

lemma createGetter_convert:
  assumes h: "heap st t = Some (Ordinary ob)"
    and k: "k \<noteq> IS_REACTIVE" "k \<noteq> IS_READONLY" "k \<noteq> IS_SHALLOW"
      "\<not> (k = RAW \<and> r = map_get (variant_map ro sh) st t)"
      "\<not> (\<not> ro \<and> raw_type ob = ''Array'' \<and> arrayInstrumentations_hasOwn k)"
    and nw: "not_wrapper st (ordinary_get ob k)"
  shows "createGetter (js_get (Suc n)) ro sh t k r st =
     (let res = ordinary_get ob k in
      if (if isSymbol k then builtInSymbols_has k else isNonTrackableKeys k) then Inr (res, st)
      else
        let st2 = (if ro then st else track t GET k st) in
        if sh then Inr (res, st2)
        else if is_box st res then
          Inr (if raw_type ob = ''Array'' \<and> isIntegerKey k then res else box_value st res, st2)
        else if isObject res then
          (if ro then readonly (js_get (Suc n)) res st2 else reactive (js_get (Suc n)) res st2)
        else Inr (res, st2))"
proof -
  let ?res = "ordinary_get ob k"
  have conv: "bindr (isRef (get_step (js_get n)) ?res s) (\<lambda>r st3.
                if r then
                  (if raw_type ob = ''Array'' \<and> isIntegerKey k then Inr (?res, st3)
                   else get_step (js_get n) ?res (KStr ''value'') ?res st3)
                else if isObject ?res then
                  (if ro then readonly (get_step (js_get n)) ?res st3
                   else reactive (get_step (js_get n)) ?res st3)
                else Inr (?res, st3)) =
      (if is_box s ?res then
         Inr (if raw_type ob = ''Array'' \<and> isIntegerKey k then ?res else box_value s ?res, s)
       else if isObject ?res then
         (if ro then readonly (get_step (js_get n)) ?res s else reactive (get_step (js_get n)) ?res s)
       else Inr (?res, s))"
    if "not_wrapper s ?res" for s
    using that box_value_read [of s ?res "js_get n"]
    by (simp add: isRef_not_wrapper)
  have c1: "not_wrapper st ?res" by (rule nw)
  have c2: "not_wrapper (track t GET k st) ?res" using nw by simp
  have e: "createGetter (js_get (Suc n)) ro sh t k r st =
      (if (if isSymbol k then builtInSymbols_has k else isNonTrackableKeys k)
       then Inr (?res, st)
       else
       let st2 = (if \<not> ro then track t GET k st else st) in
         if sh then Inr (?res, st2)
         else bindr (isRef (get_step (js_get n)) ?res st2) (\<lambda>r st3.
                if r then
                  (if raw_type ob = ''Array'' \<and> isIntegerKey k then Inr (?res, st3)
                   else get_step (js_get n) ?res (KStr ''value'') ?res st3)
                else if isObject ?res then
                  (if ro then readonly (get_step (js_get n)) ?res st3
                   else reactive (get_step (js_get n)) ?res st3)
                else Inr (?res, st3)))"
    using createGetter_ordinary [OF h k, of "js_get n"] by simp
  show ?thesis
    unfolding e
    by (cases ro) (simp_all add: Let_def conv [OF c1] conv [OF c2])
qed

text \<open>
  Claim C5 (as amended). For a read that is not answered before the underlying read (the key is
  no reserved flag key and the read is not an instrumented array method), on a raw target whose
  stored value is not itself a wrapper. If the key is a built-in symbol or one of \<open>__proto__\<close>,
  \<open>__v_isRef\<close>, \<open>__isVue\<close>, every variant returns the stored value as it is and leaves the
  state as it was. For every other key: a shallow handler returns the stored value as it is; a
  deep handler returns the inner value of a boxed reference, or the box itself when the target
  is an array and the key an integer index; it returns \<open>readonly\<close> of a stored object when the
  handler is readonly and \<open>reactive\<close> of it otherwise; and it returns any other value as it
  is.
\<close>

theorem read_conversion:
  assumes h: "heap st t = Some (Ordinary ob)"
    and k: "k \<noteq> IS_REACTIVE" "k \<noteq> IS_READONLY" "k \<noteq> IS_SHALLOW"
      "\<not> (k = RAW \<and> r = map_get (variant_map ro sh) st t)"
      "\<not> (\<not> ro \<and> raw_type ob = ''Array'' \<and> arrayInstrumentations_hasOwn k)"
    and nw: "not_wrapper st (ordinary_get ob k)"
  shows "createGetter (js_get (Suc n)) ro sh t k r st =
     (let res = ordinary_get ob k in
      if (if isSymbol k then builtInSymbols_has k else isNonTrackableKeys k) then Inr (res, st)
      else
        let st2 = (if ro then st else track t GET k st) in
        if sh then Inr (res, st2)
        else if is_box st res then
          Inr (if raw_type ob = ''Array'' \<and> isIntegerKey k then res else box_value st res, st2)
        else if isObject res then
          (if ro then readonly (js_get (Suc n)) res st2 else reactive (js_get (Suc n)) res st2)
        else Inr (res, st2))"
  using assms by (rule createGetter_convert)

lemma box_state_eq:
  "box_state =
     \<lparr>heap = [0 \<mapsto> Ordinary \<lparr>raw_type = ''Object'', extensible = True,
                    props = [KStr ''value'' \<mapsto> VNum 0, KStr ''__v_isRef'' \<mapsto> VBool True], len = 0\<rparr>,
              1 \<mapsto> Ordinary \<lparr>raw_type = ''Object'', extensible = True,
                    props = [KStr ''count'' \<mapsto> VObj 0], len = 0\<rparr>,
              2 \<mapsto> Proxy 1 MutableHandlers],
      nxt = 3, reactiveMap = [1 \<mapsto> 2], shallowReactiveMap = Map.empty,
      readonlyMap = Map.empty, shallowReadonlyMap = Map.empty, dev = True, activeEffect = True,
      shouldTrack = True, trackStack = [], deps = [], calls = []\<rparr>"
  by (simp add: numeral_2_eq_2 numeral_3_eq_3
      box_state_def new_box_def new_object_def init_state_def state_of_def reactive_def
      isReadonly_def createReactiveObject_def get_step_def ordinary_get_def map_get_def
      registry_def map_set_def getTargetType_def isExtensible_def toRawType_def targetTypeMap_def)

lemma symbol_state_eq:
  "symbol_state =
     \<lparr>heap = [0 \<mapsto> Ordinary \<lparr>raw_type = ''Object'', extensible = True, props = Map.empty, len = 0\<rparr>,
              1 \<mapsto> Ordinary \<lparr>raw_type = ''Object'', extensible = True,
                    props = [KSym (WellKnown ''unscopables'') \<mapsto> VObj 0], len = 0\<rparr>,
              2 \<mapsto> Proxy 1 MutableHandlers],
      nxt = 3, reactiveMap = [1 \<mapsto> 2], shallowReactiveMap = Map.empty,
      readonlyMap = Map.empty, shallowReadonlyMap = Map.empty, dev = True, activeEffect = True,
      shouldTrack = True, trackStack = [], deps = [], calls = []\<rparr>"
  by (simp add: numeral_2_eq_2 numeral_3_eq_3
      symbol_state_def new_object_def init_state_def state_of_def reactive_def
      isReadonly_def createReactiveObject_def get_step_def ordinary_get_def map_get_def
      registry_def map_set_def getTargetType_def isExtensible_def toRawType_def targetTypeMap_def)

theorem read_conversion_witness:
  "createGetter (js_get (Suc 0)) False False 1 (KStr ''count'') (VObj 2) box_state =
     Inr (VNum 0, track 1 GET (KStr ''count'') box_state) \<and>
   createGetter (js_get (Suc 0)) False False 1 (KSym (WellKnown ''unscopables'')) (VObj 2)
       symbol_state =
     Inr (VObj 0, symbol_state)"
proof -
  let ?ob = "\<lparr>raw_type = ''Object'', extensible = True,
                props = [KStr ''count'' \<mapsto> VObj 0], len = 0\<rparr>"
  have h: "heap box_state 1 = Some (Ordinary ?ob)"
    by (simp add: box_state_eq)
  have k: "KStr ''count'' \<noteq> IS_REACTIVE" "KStr ''count'' \<noteq> IS_READONLY"
    "KStr ''count'' \<noteq> IS_SHALLOW"
    "\<not> (KStr ''count'' = RAW \<and> VObj 2 = map_get (variant_map False False) box_state 1)"
    "\<not> (\<not> False \<and> raw_type ?ob = ''Array'' \<and> arrayInstrumentations_hasOwn (KStr ''count''))"
    by simp_all
  have nw: "not_wrapper box_state (ordinary_get ?ob (KStr ''count''))"
    by (simp add: not_wrapper_def ordinary_get_def box_state_eq)
  have b: "is_box box_state (VObj 0)" "box_value box_state (VObj 0) = VNum 0"
    by (simp_all add: is_box_def box_value_def box_state_eq ordinary_get_def)
  from read_conversion [OF h k nw, of 0] b
  have a1: "createGetter (js_get (Suc 0)) False False 1 (KStr ''count'') (VObj 2) box_state =
     Inr (VNum 0, track 1 GET (KStr ''count'') box_state)"
    by (simp add: ordinary_get_def Let_def isNonTrackableKeys_def del: js_get.simps)
  let ?u = "KSym (WellKnown ''unscopables'')"
  let ?ob2 = "\<lparr>raw_type = ''Object'', extensible = True, props = [?u \<mapsto> VObj 0], len = 0\<rparr>"
  have h2: "heap symbol_state 1 = Some (Ordinary ?ob2)"
    by (simp add: symbol_state_eq)
  have k2: "?u \<noteq> IS_REACTIVE" "?u \<noteq> IS_READONLY" "?u \<noteq> IS_SHALLOW"
    "\<not> (?u = RAW \<and> VObj 2 = map_get (variant_map False False) symbol_state 1)"
    "\<not> (\<not> False \<and> raw_type ?ob2 = ''Array'' \<and> arrayInstrumentations_hasOwn ?u)"
    by simp_all
  have nw2: "not_wrapper symbol_state (ordinary_get ?ob2 ?u)"
    by (simp add: not_wrapper_def ordinary_get_def symbol_state_eq)
  from read_conversion [OF h2 k2 nw2, of 0]
  have a2: "createGetter (js_get (Suc 0)) False False 1 ?u (VObj 2) symbol_state =
     Inr (VObj 0, symbol_state)"
    by (simp add: ordinary_get_def Let_def del: js_get.simps)
  from a1 a2 show ?thesis by (rule conjI)
qed

text \<open>
  The claim as stated fails for keys that bypass the conversion. Object 1 holds object 0 under
  the built-in symbol \<open>unscopables\<close>, and 2 is the deep mutable wrapper of 1. The read returns
  object 0 itself, whereas \<open>reactive\<close> of object 0 would be a new wrapper.
\<close>

theorem symbol_key_not_wrapped_counterexample:
  "value_of (js_get (Suc (Suc 0)) (VObj 2) (KSym (WellKnown ''unscopables'')) (VObj 2) symbol_state)
     = Some (VObj 0) \<and>
   value_of (reactive (js_get (Suc 0)) (VObj 0) symbol_state) = Some (VObj 3)"
  by (simp add: numeral_2_eq_2 numeral_3_eq_3 symbol_state_def new_object_def init_state_def state_of_def reactive_def
      isReadonly_def createReactiveObject_def get_step_def ordinary_get_def map_get_def
      registry_def map_set_def getTargetType_def isExtensible_def toRawType_def targetTypeMap_def
      createGetter_def isArray_def variant_map_def)

lemma createGetter_instrumented:
  assumes "heap st t = Some (Ordinary ob)"
    and "raw_type ob = ''Array''" "arrayInstrumentations_hasOwn k"
  shows "createGetter g False sh t k r st = Inr (arrayInstrumentations_get k, st)"
proof -
  from assms(3) obtain s where k: "k = KStr s" "s \<in> set search_methods \<or> s \<in> set mutator_methods"
    by (cases k) auto
  then have f: "k \<noteq> IS_REACTIVE" "k \<noteq> IS_READONLY" "k \<noteq> IS_SHALLOW" "k \<noteq> RAW"
    by (auto simp: search_methods_def mutator_methods_def)
  show ?thesis
    using assms f by (simp add: createGetter_def isArray_ordinary)
qed

lemma array_state_eq:
  "array_state =
     \<lparr>heap = [0 \<mapsto> Ordinary \<lparr>raw_type = ''Array'', extensible = True,
                    props = [KInt 1 \<mapsto> VNum 8, KInt 0 \<mapsto> VNum 7], len = 2\<rparr>,
              1 \<mapsto> Proxy 0 MutableHandlers],
      nxt = 2, reactiveMap = [0 \<mapsto> 1], shallowReactiveMap = Map.empty,
      readonlyMap = Map.empty, shallowReadonlyMap = Map.empty, dev = True, activeEffect = True,
      shouldTrack = True, trackStack = [], deps = [], calls = []\<rparr>"
  by (simp add: numeral_2_eq_2 array_state_def new_array_def init_state_def state_of_def
      reactive_def isReadonly_def createReactiveObject_def get_step_def ordinary_get_def
      map_get_def registry_def map_set_def getTargetType_def isExtensible_def toRawType_def
      targetTypeMap_def upt_rec search_methods_def mutator_methods_def)

text \<open>
  Claim C4 (as amended). On a raw target whose stored value is not itself a wrapper, the read
  trap returns, and it calls \<open>track(target, GET, key)\<close> exactly once if the handler is not
  readonly, the key is none of the flag keys \<open>__v_isReactive\<close>, \<open>__v_isReadonly\<close>,
  \<open>__v_isShallow\<close>, the read is not the \<open>__v_raw\<close> query of the wrapper registered for the
  target, the read is not an instrumented method name on an array target, and the key is
  neither a built-in symbol nor one of \<open>__proto__\<close>, \<open>__v_isRef\<close>, \<open>__isVue\<close>; in every
  other case, and for every readonly handler, it calls nothing.
\<close>

theorem read_tracking:
  assumes h: "heap st t = Some (Ordinary ob)"
    and nw: "not_wrapper st (ordinary_get ob k)"
  shows "\<exists>v st'. createGetter (js_get (Suc n)) ro sh t k r st = Inr (v, st') \<and>
      calls st' = calls st @
        (if \<not> ro \<and> k \<noteq> IS_REACTIVE \<and> k \<noteq> IS_READONLY \<and> k \<noteq> IS_SHALLOW \<and>
            \<not> (k = RAW \<and> r = map_get (variant_map ro sh) st t) \<and>
            \<not> (raw_type ob = ''Array'' \<and> arrayInstrumentations_hasOwn k) \<and>
            \<not> (if isSymbol k then builtInSymbols_has k else isNonTrackableKeys k)
         then [Track t GET k] else [])"
proof -
  let ?g = "js_get (Suc n)"
  let ?res = "ordinary_get ob k"
  show ?thesis
  proof (cases "k = IS_REACTIVE \<or> k = IS_READONLY \<or> k = IS_SHALLOW")
    case True
    then show ?thesis by (auto simp: createGetter_def)
  next
    case nflag: False
    show ?thesis
    proof (cases "k = RAW \<and> r = map_get (variant_map ro sh) st t")
      case True
      with nflag show ?thesis by (simp add: createGetter_def)
    next
      case nraw: False
      show ?thesis
      proof (cases "\<not> ro \<and> raw_type ob = ''Array'' \<and> arrayInstrumentations_hasOwn k")
        case True
        then have "createGetter ?g ro sh t k r st = Inr (arrayInstrumentations_get k, st)"
          using createGetter_instrumented [OF h, of k ?g sh r] by simp
        with True show ?thesis by simp
      next
        case ninstr: False
        have pre: "k \<noteq> IS_REACTIVE" "k \<noteq> IS_READONLY" "k \<noteq> IS_SHALLOW"
          "\<not> (k = RAW \<and> r = map_get (variant_map ro sh) st t)"
          "\<not> (\<not> ro \<and> raw_type ob = ''Array'' \<and> arrayInstrumentations_hasOwn k)"
          using nflag nraw ninstr by simp_all
        show ?thesis
        proof (cases "if isSymbol k then builtInSymbols_has k else isNonTrackableKeys k")
          case filtered: True
          have "createGetter ?g ro sh t k r st = Inr (?res, st)"
            using createGetter_ordinary [OF h pre, of "js_get n"] filtered by simp
          with filtered show ?thesis by simp
        next
          case tr: False
          let ?st2 = "if ro then st else track t GET k st"
          have c2: "calls ?st2 = calls st @ (if \<not> ro then [Track t GET k] else [])" by simp
          have goal: "(if \<not> ro \<and> k \<noteq> IS_REACTIVE \<and> k \<noteq> IS_READONLY \<and> k \<noteq> IS_SHALLOW \<and>
                  \<not> (k = RAW \<and> r = map_get (variant_map ro sh) st t) \<and>
                  \<not> (raw_type ob = ''Array'' \<and> arrayInstrumentations_hasOwn k) \<and>
                  \<not> (if isSymbol k then builtInSymbols_has k else isNonTrackableKeys k)
               then [Track t GET k] else []) = (if \<not> ro then [Track t GET k] else [])"
            using pre tr by auto
          have e: "createGetter ?g ro sh t k r st =
             (if sh then Inr (?res, ?st2)
              else if is_box st ?res then
                Inr (if raw_type ob = ''Array'' \<and> isIntegerKey k then ?res else box_value st ?res, ?st2)
              else if isObject ?res then
                (if ro then readonly ?g ?res ?st2 else reactive ?g ?res ?st2)
              else Inr (?res, ?st2))"
            using createGetter_convert [OF h pre nw, of n] tr by (simp add: Let_def del: js_get.simps)
          have "\<exists>v st'. createGetter ?g ro sh t k r st = Inr (v, st') \<and> calls st' = calls ?st2"
          proof (cases "\<not> sh \<and> \<not> is_box st ?res \<and> isObject ?res")
            case False
            then show ?thesis unfolding e by auto
          next
            case True
            then obtain b where b: "?res = VObj b" by (cases ?res) auto
            with nw obtain c where "heap st b = Some (Ordinary c)"
              by (auto simp: not_wrapper_def split: option.splits cell.splits)
            then have c: "heap ?st2 b = Some (Ordinary c)" by simp
            from reactive_raw_calls [OF c, of "js_get n"] readonly_raw_calls [OF c, of "js_get n"]
            show ?thesis unfolding e using True b by (cases ro) simp_all
          qed
          then show ?thesis unfolding goal c2 [symmetric] .
        qed
      qed
    qed
  qed
qed


lemma record_wrapped_state_eq:
  "record_wrapped_state =
     \<lparr>heap = [0 \<mapsto> Ordinary \<lparr>raw_type = ''Object'', extensible = True,
                    props = [KStr ''a'' \<mapsto> VNum 1], len = 0\<rparr>,
              1 \<mapsto> Proxy 0 MutableHandlers],
      nxt = 2, reactiveMap = [0 \<mapsto> 1], shallowReactiveMap = Map.empty,
      readonlyMap = Map.empty, shallowReadonlyMap = Map.empty, dev = True, activeEffect = True,
      shouldTrack = True, trackStack = [], deps = [], calls = []\<rparr>"
  by (simp add: numeral_2_eq_2 record_wrapped_state_def record_state_def new_object_def
      init_state_def state_of_def reactive_def isReadonly_def createReactiveObject_def
      get_step_def ordinary_get_def map_get_def registry_def map_set_def getTargetType_def
      isExtensible_def toRawType_def targetTypeMap_def)

theorem read_tracking_witness:
  "calls_of (createGetter (js_get (Suc 0)) False False 0 (KStr ''a'') (VObj 1) record_wrapped_state)
     = [Track 0 GET (KStr ''a'')] \<and>
   calls_of (createGetter (js_get (Suc 0)) True False 0 (KStr ''a'') (VObj 1) record_wrapped_state)
     = [] \<and>
   calls_of (createGetter (js_get (Suc 0)) False False 0 IS_REACTIVE (VObj 1) record_wrapped_state)
     = []"
proof -
  let ?ob = "\<lparr>raw_type = ''Object'', extensible = True, props = [KStr ''a'' \<mapsto> VNum 1], len = 0\<rparr>"
  have h: "heap record_wrapped_state 0 = Some (Ordinary ?ob)"
    by (simp add: record_wrapped_state_eq)
  have nw: "not_wrapper record_wrapped_state (ordinary_get ?ob k)" for k
    by (simp add: not_wrapper_def ordinary_get_def)
  have c: "calls record_wrapped_state = []"
    by (simp add: record_wrapped_state_eq)
  from read_tracking [OF h nw, of 0 False False "KStr ''a''" "VObj 1"]
  have a1: "calls_of (createGetter (js_get (Suc 0)) False False 0 (KStr ''a'') (VObj 1)
      record_wrapped_state) = [Track 0 GET (KStr ''a'')]"
    by (auto simp: c isNonTrackableKeys_def simp del: js_get.simps)
  from read_tracking [OF h nw, of 0 True False "KStr ''a''" "VObj 1"]
  have a2: "calls_of (createGetter (js_get (Suc 0)) True False 0 (KStr ''a'') (VObj 1)
      record_wrapped_state) = []"
    by (auto simp: c simp del: js_get.simps)
  from read_tracking [OF h nw, of 0 False False IS_REACTIVE "VObj 1"]
  have a3: "calls_of (createGetter (js_get (Suc 0)) False False 0 IS_REACTIVE (VObj 1)
      record_wrapped_state) = []"
    by (auto simp: c simp del: js_get.simps)
  from a1 a2 a3 show ?thesis by blast
qed

text \<open>
  The claim as stated fails for the instrumented array methods: wrapper 1 is the deep mutable
  wrapper of array 0, the key \<open>push\<close> is no flag key, no symbol and not in the non-trackable
  set, and yet the read returns the replacement method without any call to \<open>track\<close>.
\<close>

theorem instrumented_read_not_tracked_counterexample:
  "value_of (js_get (Suc (Suc 0)) (VObj 1) (KStr ''push'') (VObj 1) array_state)
     = Some (VFun (Instrumented ''push'')) \<and>
   calls_of (js_get (Suc (Suc 0)) (VObj 1) (KStr ''push'') (VObj 1) array_state) = [] \<and>
   \<not> isSymbol (KStr ''push'') \<and> \<not> isNonTrackableKeys (KStr ''push'')"
  by (simp add: array_state_eq get_step_def createGetter_def isArray_def
      search_methods_def mutator_methods_def isNonTrackableKeys_def)

section \<open>Writes through the mutable set trap\<close>

lemma raw_value_not_wrapper: "raw_value st v \<Longrightarrow> not_wrapper st v"
  by (auto simp: raw_value_def not_wrapper_def split: val.splits option.splits cell.splits)

lemma isReadonly_raw_value:
  "raw_value st v \<Longrightarrow> isReadonly (get_step g) v st = Inr (own_flag st v IS_READONLY, st)"
  by (cases v)
     (auto simp: raw_value_def own_flag_def isReadonly_def get_step_def
        split: option.splits cell.splits)

lemma isShallow_raw_value:
  "raw_value st v \<Longrightarrow> isShallow (get_step g) v st = Inr (own_flag st v IS_SHALLOW, st)"
  by (cases v)
     (auto simp: raw_value_def own_flag_def isShallow_def get_step_def
        split: option.splits cell.splits)

lemma isRef_raw_value:
  "raw_value st v \<Longrightarrow> isRef (get_step g) v st = Inr (is_box st v, st)"
  by (rule isRef_not_wrapper) (rule raw_value_not_wrapper)

lemma toRaw_raw_value:
  "raw_value st v \<Longrightarrow> toRaw (Suc (Suc n)) v st = Inr (v, st)"
  by (cases v)
     (auto simp: raw_value_def get_step_def split: option.splits cell.splits)

lemma hasOwn_ordinary:
  "heap st t = Some (Ordinary ob) \<Longrightarrow> hasOwn st t k = Some (ordinary_hasOwn ob k)"
  by (simp add: hasOwn_def)

lemma createSetter_reject:
  assumes "heap st t = Some (Ordinary ob)"
    and "isReadonly (js_get (Suc n)) (ordinary_get ob k) st = Inr (True, st)"
    and "isRef (js_get (Suc n)) (ordinary_get ob k) st = Inr (True, st)"
    and "isRef (js_get (Suc n)) v st = Inr (False, st)"
  shows "createSetter (Suc n) put sh t k v r st = Inr (False, st)"
  unfolding createSetter_def
  using assms
  by (simp add: get_step_ordinary [OF assms(1)])

lemma createSetter_ordinary:
  assumes h: "heap st t = Some (Ordinary ob)"
    and old: "raw_value st (ordinary_get ob k)"
    and v: "raw_value st v"
    and nr: "\<not> (own_flag st (ordinary_get ob k) IS_READONLY \<and> is_box st (ordinary_get ob k) \<and>
                \<not> is_box st v)"
  shows "createSetter (Suc (Suc n)) put sh t k v r st =
     (if \<not> sh \<and> raw_type ob \<noteq> ''Array'' \<and> is_box st (ordinary_get ob k) \<and> \<not> is_box st v
      then bindr (put (ordinary_get ob k) (KStr ''value'') v (ordinary_get ob k) st) (\<lambda>ok st7.
             if ok then Inr (True, st7) else Inl TypeError)
      else
        bindr (put (VObj t) k v r st) (\<lambda>result st9.
        bindr (toRaw (Suc (Suc n)) r st9) (\<lambda>rawReceiver st10.
          Inr (result,
            if VObj t = rawReceiver then
              (if \<not> hadKey_before ob k then trigger t ADD k v VUndefined st10
               else if hasChanged v (ordinary_get ob k) then
                 trigger t SET k v (ordinary_get ob k) st10
               else st10)
            else st10))))"
proof -
  let ?old = "ordinary_get ob k"
  let ?g = "get_step (js_get n)"
  note ev = get_step_ordinary [OF h] isReadonly_raw_value [OF old] isReadonly_raw_value [OF v]
    isRef_raw_value [OF old] isRef_raw_value [OF v] isShallow_raw_value [OF v]
    toRaw_raw_value [OF old] toRaw_raw_value [OF v] isArray_ordinary [OF h] hasOwn_ordinary [OF h]
  show ?thesis
    unfolding createSetter_def
    using nr
    by (cases sh; cases "is_box st ?old"; cases "is_box st v";
        cases "own_flag st ?old IS_READONLY"; cases "raw_type ob = ''Array''";
        cases "isIntegerKey k")
       (simp_all add: ev hadKey_before_def del: toRaw.simps cong: if_cong)
qed

lemma isRef_readonly_proxy:
  assumes "heap st q = Some (Proxy b hs)" "get_isReadonly hs" "\<not> is_collection hs"
    and "is_box st (VObj b)"
  shows "isRef (get_step (get_step g)) (VObj q) st = Inr (True, st)"
proof -
  from assms(4) obtain c where c: "heap st b = Some (Ordinary c)"
    "ordinary_get c (KStr ''__v_isRef'') = VBool True"
    by (auto simp: is_box_def split: option.splits cell.splits)
  have "createGetter (get_step g) True (get_shallow hs) b (KStr ''__v_isRef'') (VObj q) st =
      Inr (VBool True, st)"
    using createGetter_ordinary [OF c(1), of "KStr ''__v_isRef''" "VObj q" True "get_shallow hs" g] c(2)
    by (simp add: isNonTrackableKeys_def)
  then show ?thesis
    using assms(1-3) by (simp add: isRef_def get_step_def [of "get_step g"])
qed

lemma ordinary_set_self:
  assumes "heap st b = Some (Ordinary c)"
  shows "ordinary_set k v (VObj b) st =
     (case define_own c k v of
        Inl e \<Rightarrow> Inl e
      | Inr None \<Rightarrow> Inr (False, st)
      | Inr (Some c') \<Rightarrow> Inr (True, st\<lparr>heap := (heap st)(b \<mapsto> Ordinary c')\<rparr>))"
  using assms by (simp add: ordinary_set_def)

text \<open>
  Claim C7. In the mutable set trap on a raw target, for an incoming value that is a raw value
  and not a boxed reference: if the value stored at the key is a readonly boxed reference (a
  box that carries a truthy \<open>__v_isReadonly\<close>, or a readonly wrapper of a box), the trap
  returns \<open>False\<close> and the state is unchanged, for deep and shallow handlers alike; otherwise,
  for the deep handler on a target that is not an array whose stored value is a box, the trap
  returns \<open>True\<close> and the only change is that the box's inner slot holds the new value (the
  target still holds the same box).
\<close>

theorem boxed_reference_write:
  assumes h: "heap st t = Some (Ordinary ob)"
    and v: "raw_value st v" "\<not> is_box st v"
  shows "(readonly_box st (ordinary_get ob k) \<longrightarrow>
            createSetter (Suc (Suc n)) put sh t k v r st = Inr (False, st)) \<and>
         (\<forall>b c. ordinary_get ob k = VObj b \<and> heap st b = Some (Ordinary c) \<and> b \<noteq> t \<and>
                is_box st (VObj b) \<and> \<not> readonly_box st (VObj b) \<and> raw_value st (VObj b) \<and>
                props c (KStr ''value'') \<noteq> None \<and> raw_type ob \<noteq> ''Array'' \<longrightarrow>
            createSetter (Suc (Suc n)) (js_set (Suc m)) False t k v r st =
              Inr (True, st\<lparr>heap := (heap st)(b \<mapsto>
                    Ordinary (c\<lparr>props := (props c)(KStr ''value'' \<mapsto> v)\<rparr>))\<rparr>))"
proof (intro conjI impI allI)
  let ?old = "ordinary_get ob k"
  assume rb: "readonly_box st ?old"
  have nv: "isRef (js_get (Suc (Suc n))) v st = Inr (False, st)"
    using v by (simp add: isRef_raw_value)
  from rb obtain q where q: "?old = VObj q" by (cases ?old) (auto simp: readonly_box_def)
  have "isReadonly (js_get (Suc (Suc n))) ?old st = Inr (True, st) \<and>
        isRef (js_get (Suc (Suc n))) ?old st = Inr (True, st)"
  proof (cases "heap st q")
    case None
    with rb q show ?thesis by (simp add: readonly_box_def)
  next
    case (Some cell)
    show ?thesis
    proof (cases cell)
      case (Ordinary c)
      with Some rb q show ?thesis
        by (simp add: readonly_box_def isReadonly_ordinary isRef_ordinary)
    next
      case (Proxy b hs)
      with Some rb q have p: "heap st q = Some (Proxy b hs)" "get_isReadonly hs"
        "\<not> is_collection hs" "is_box st (VObj b)"
        by (simp_all add: readonly_box_def)
      from isRef_readonly_proxy [OF p, of "js_get n"] p(1,2) q show ?thesis
        by (simp add: isReadonly_proxy)
    qed
  qed
  then show "createSetter (Suc (Suc n)) put sh t k v r st = Inr (False, st)"
    using createSetter_reject [OF h, of "Suc n" k v put sh r] nv by blast
next
  fix b c
  assume a: "ordinary_get ob k = VObj b \<and> heap st b = Some (Ordinary c) \<and> b \<noteq> t \<and>
                is_box st (VObj b) \<and> \<not> readonly_box st (VObj b) \<and> raw_value st (VObj b) \<and>
                props c (KStr ''value'') \<noteq> None \<and> raw_type ob \<noteq> ''Array''"
  then have old: "raw_value st (ordinary_get ob k)" by simp
  have nr: "\<not> (own_flag st (ordinary_get ob k) IS_READONLY \<and> is_box st (ordinary_get ob k) \<and>
                \<not> is_box st v)"
    using a by (auto simp: readonly_box_def own_flag_def is_box_def)
  have w: "js_set (Suc m) (VObj b) (KStr ''value'') v (VObj b) st =
      Inr (True, st\<lparr>heap := (heap st)(b \<mapsto> Ordinary (c\<lparr>props := (props c)(KStr ''value'' \<mapsto> v)\<rparr>))\<rparr>)"
    using a by (auto simp: set_step_def ordinary_set_self define_own_def)
  show "createSetter (Suc (Suc n)) (js_set (Suc m)) False t k v r st =
      Inr (True, st\<lparr>heap := (heap st)(b \<mapsto> Ordinary (c\<lparr>props := (props c)(KStr ''value'' \<mapsto> v)\<rparr>))\<rparr>)"
    using a v(2) w
    by (simp add: createSetter_ordinary [OF h old v(1) nr] del: js_set.simps)
qed


lemma readonly_box_state_eq:
  "readonly_box_state =
     \<lparr>heap = [0 \<mapsto> Ordinary \<lparr>raw_type = ''Object'', extensible = True,
                    props = [IS_READONLY \<mapsto> VBool True, KStr ''value'' \<mapsto> VNum 0,
                             KStr ''__v_isRef'' \<mapsto> VBool True], len = 0\<rparr>,
              1 \<mapsto> Ordinary \<lparr>raw_type = ''Object'', extensible = True,
                    props = [KStr ''total'' \<mapsto> VObj 0], len = 0\<rparr>,
              2 \<mapsto> Proxy 1 MutableHandlers],
      nxt = 3, reactiveMap = [1 \<mapsto> 2], shallowReactiveMap = Map.empty,
      readonlyMap = Map.empty, shallowReadonlyMap = Map.empty, dev = True, activeEffect = True,
      shouldTrack = True, trackStack = [], deps = [], calls = []\<rparr>"
  by (simp add: numeral_2_eq_2 numeral_3_eq_3 readonly_box_state_def new_object_def
      init_state_def state_of_def reactive_def isReadonly_def createReactiveObject_def
      get_step_def ordinary_get_def map_get_def registry_def map_set_def getTargetType_def
      isExtensible_def toRawType_def targetTypeMap_def)

theorem boxed_reference_write_witness:
  "createSetter (Suc (Suc 0)) (js_set (Suc 0)) False 1 (KStr ''total'') (VNum 5) (VObj 2)
      readonly_box_state = Inr (False, readonly_box_state) \<and>
   value_of (createSetter (Suc (Suc 0)) (js_set (Suc 0)) False 1 (KStr ''count'') (VNum 5) (VObj 2)
      box_state) = Some True \<and>
   box_value (state_of (createSetter (Suc (Suc 0)) (js_set (Suc 0)) False 1 (KStr ''count'')
      (VNum 5) (VObj 2) box_state)) (VObj 0) = VNum 5 \<and>
   ordinary_get \<lparr>raw_type = ''Object'', extensible = True,
      props = [KStr ''count'' \<mapsto> VObj 0], len = 0\<rparr> (KStr ''count'') = VObj 0"
proof -
  let ?ob1 = "\<lparr>raw_type = ''Object'', extensible = True,
                 props = [KStr ''total'' \<mapsto> VObj 0], len = 0\<rparr>"
  let ?ob2 = "\<lparr>raw_type = ''Object'', extensible = True,
                 props = [KStr ''count'' \<mapsto> VObj 0], len = 0\<rparr>"
  let ?box = "\<lparr>raw_type = ''Object'', extensible = True,
                 props = [KStr ''value'' \<mapsto> VNum 0, KStr ''__v_isRef'' \<mapsto> VBool True],
                 len = 0\<rparr>"
  have h1: "heap readonly_box_state 1 = Some (Ordinary ?ob1)"
    by (simp add: readonly_box_state_eq)
  have h2: "heap box_state 1 = Some (Ordinary ?ob2)"
    by (simp add: box_state_eq)
  have v1: "raw_value readonly_box_state (VNum 5)" "\<not> is_box readonly_box_state (VNum 5)"
    and v2: "raw_value box_state (VNum 5)" "\<not> is_box box_state (VNum 5)"
    by (simp_all add: raw_value_def is_box_def)
  have rb: "readonly_box readonly_box_state (ordinary_get ?ob1 (KStr ''total''))"
    by (simp add: readonly_box_def ordinary_get_def readonly_box_state_eq)
  from boxed_reference_write [OF h1 v1, of "KStr ''total''" 0 "js_set (Suc 0)" False "VObj 2"] rb
  have a: "createSetter (Suc (Suc 0)) (js_set (Suc 0)) False 1 (KStr ''total'') (VNum 5) (VObj 2)
      readonly_box_state = Inr (False, readonly_box_state)"
    by blast
  have pre: "ordinary_get ?ob2 (KStr ''count'') = VObj 0 \<and> heap box_state 0 = Some (Ordinary ?box) \<and>
      (0::nat) \<noteq> 1 \<and> is_box box_state (VObj 0) \<and> \<not> readonly_box box_state (VObj 0) \<and>
      raw_value box_state (VObj 0) \<and> props ?box (KStr ''value'') \<noteq> None \<and>
      raw_type ?ob2 \<noteq> ''Array''"
    by (simp add: ordinary_get_def box_state_eq is_box_def readonly_box_def raw_value_def)
  from boxed_reference_write [OF h2 v2, of "KStr ''count''" 0 "js_set (Suc 0)" False "VObj 2" 0] pre
  have b: "createSetter (Suc (Suc 0)) (js_set (Suc 0)) False 1 (KStr ''count'') (VNum 5) (VObj 2)
      box_state = Inr (True, box_state\<lparr>heap := (heap box_state)(0 \<mapsto>
                    Ordinary (?box\<lparr>props := (props ?box)(KStr ''value'' \<mapsto> VNum 5)\<rparr>))\<rparr>)"
    by blast
  show ?thesis
    unfolding a b
    by (simp add: state_of_def box_value_def ordinary_get_def)
qed

lemma receiver_base_cases:
  assumes "receiver_base st r = Some b"
  obtains (self) c where "r = VObj b" "heap st b = Some (Ordinary c)"
      "\<not> truthy (ordinary_get c RAW)"
    | (wrapper) w hs c where "r = VObj w" "heap st w = Some (Proxy b hs)"
      "heap st b = Some (Ordinary c)" "b < w" "registry (handlers_registry hs) st b = Some w"
      "\<not> truthy (ordinary_get c RAW)"
  using assms
  by (auto simp: receiver_base_def split: val.splits option.splits cell.splits if_splits)

lemma ordinary_set_receiver_base:
  assumes "receiver_base st r = Some b" "heap st b = Some (Ordinary bob)"
  shows "ordinary_set k v r st =
     (case define_own bob k v of
        Inl e \<Rightarrow> Inl e
      | Inr None \<Rightarrow> Inr (False, st)
      | Inr (Some ob') \<Rightarrow> Inr (True, st\<lparr>heap := (heap st)(b \<mapsto> Ordinary ob')\<rparr>))"
  using assms(1)
proof (cases rule: receiver_base_cases)
  case (self c)
  with assms(2) show ?thesis by (simp add: ordinary_set_def)
next
  case (wrapper w hs c)
  then have "proxy_base (Suc w) (heap st) w = Some (b, bob)"
    using assms(2) by (intro proxy_base_proxy) auto
  with wrapper(1) show ?thesis by (simp add: ordinary_set_def del: proxy_base.simps)
qed

lemma toRaw_receiver_base:
  assumes "receiver_base st r = Some b"
  shows "toRaw (Suc (Suc (Suc n))) r st = Inr (VObj b, st)"
  using assms
proof (cases rule: receiver_base_cases)
  case (self c)
  then show ?thesis using toRaw_ordinary [of st b c "Suc n"] by simp
next
  case (wrapper w hs c)
  then show ?thesis
    using toRaw_registered [of st w b hs "Suc n"] toRaw_ordinary [of st b c n]
    by (simp del: toRaw.simps)
qed

lemma ordinary_get_RAW:
  "ordinary_get ob RAW = (case props ob RAW of None \<Rightarrow> VUndefined | Some x \<Rightarrow> x)"
  by (simp add: ordinary_get_def search_methods_def mutator_methods_def split: option.splits)

lemma define_own_RAW:
  "define_own bob k v = Inr (Some ob') \<Longrightarrow> k \<noteq> RAW \<Longrightarrow> ordinary_get ob' RAW = ordinary_get bob RAW"
  by (auto simp: define_own_def ordinary_get_RAW split: if_splits sum.splits)

lemma receiver_base_after_write:
  assumes "receiver_base st r = Some b" "heap st b = Some (Ordinary bob)"
    and "define_own bob k v = Inr (Some ob')" "k \<noteq> RAW"
  shows "receiver_base (st\<lparr>heap := (heap st)(b \<mapsto> Ordinary ob')\<rparr>) r = Some b"
  using assms(1)
proof (cases rule: receiver_base_cases)
  case (self c)
  with assms show ?thesis by (simp add: receiver_base_def define_own_RAW)
next
  case (wrapper w hs c)
  with assms show ?thesis
    by (cases "handlers_registry hs")
       (auto simp: receiver_base_def define_own_RAW registry_def)
qed

lemma calls_trigger [simp]:
  "calls (trigger t ty k v old st) = calls st @ [Trigger t ty k v old]"
  by (simp add: trigger_def)

lemma heap_trigger [simp]: "heap (trigger t ty k v old st) = heap st"
  by (simp add: trigger_def)

lemma registry_heap_only [simp]: "registry m (st\<lparr>heap := h\<rparr>) = registry m st"
  by (cases m) (simp_all add: registry_def)

lemma registry_trigger [simp]: "registry m (trigger t ty k v old st) = registry m st"
  by (cases m) (simp_all add: registry_def trigger_def)

lemma createSetter_write:
  assumes h: "heap st t = Some (Ordinary ob)"
    and old: "raw_value st (ordinary_get ob k)"
    and v: "raw_value st v"
    and nr: "\<not> (own_flag st (ordinary_get ob k) IS_READONLY \<and> is_box st (ordinary_get ob k) \<and>
                \<not> is_box st v)"
    and nb: "\<not> (\<not> sh \<and> raw_type ob \<noteq> ''Array'' \<and> is_box st (ordinary_get ob k) \<and>
                \<not> is_box st v)"
    and rb: "receiver_base st r = Some b" and hb: "heap st b = Some (Ordinary bob)"
    and k: "k \<noteq> RAW"
  shows "createSetter (Suc (Suc (Suc n))) (js_set (Suc m)) sh t k v r st =
     (case define_own bob k v of
        Inl e \<Rightarrow> Inl e
      | Inr w \<Rightarrow>
          Inr (w \<noteq> None,
            (let s = (case w of
                        None \<Rightarrow> st
                      | Some ob' \<Rightarrow> st\<lparr>heap := (heap st)(b \<mapsto> Ordinary ob')\<rparr>)
             in if b = t then
                  (if \<not> hadKey_before ob k then trigger t ADD k v VUndefined s
                   else if hasChanged v (ordinary_get ob k)
                     then trigger t SET k v (ordinary_get ob k) s
                   else s)
                else s)))"
proof -
  have w: "js_set (Suc m) (VObj t) k v r st =
     (case define_own bob k v of
        Inl e \<Rightarrow> Inl e
      | Inr None \<Rightarrow> Inr (False, st)
      | Inr (Some ob') \<Rightarrow> Inr (True, st\<lparr>heap := (heap st)(b \<mapsto> Ordinary ob')\<rparr>))"
    using h ordinary_set_receiver_base [OF rb hb] by (simp add: set_step_def)
  note e = createSetter_ordinary [OF h old v nr, of "Suc n" "js_set (Suc m)" sh r]
  show ?thesis
  proof (cases "define_own bob k v")
    case (Inl err)
    with nb w show ?thesis
      unfolding e by (auto simp del: toRaw.simps js_set.simps)
  next
    case (Inr x)
    show ?thesis
    proof (cases x)
      case None
      with Inr nb w toRaw_receiver_base [OF rb, of n] show ?thesis
        unfolding e by (auto simp del: toRaw.simps js_set.simps)
    next
      case (Some ob')
      let ?st9 = "st\<lparr>heap := (heap st)(b \<mapsto> Ordinary ob')\<rparr>"
      have d: "define_own bob k v = Inr (Some ob')" using Inr Some by simp
      have "toRaw (Suc (Suc (Suc n))) r ?st9 = Inr (VObj b, ?st9)"
        using receiver_base_after_write [OF rb hb d k] by (rule toRaw_receiver_base)
      with nb w d show ?thesis
        unfolding e by (auto simp del: toRaw.simps js_set.simps)
    qed
  qed
qed

section \<open>Identity-sensitive array searches\<close>

lemma heap_tracked_reads [simp]: "heap (tracked_reads a l st) = heap st"
proof -
  have "heap (foldl (\<lambda>s i. track a GET (KInt i) s) s0 xs) = heap s0" for s0 xs
    by (induction xs arbitrary: s0) simp_all
  then show ?thesis by (simp add: tracked_reads_def)
qed

lemma registry_tracked_reads [simp]: "registry m (tracked_reads a l st) = registry m st"
proof -
  have "registry m (foldl (\<lambda>s i. track a GET (KInt i) s) s0 xs) = registry m s0" for s0 xs
    by (induction xs arbitrary: s0) simp_all
  then show ?thesis by (simp add: tracked_reads_def)
qed

lemma calls_tracked_reads:
  "calls (tracked_reads a l st) =
     calls st @ Track a GET (KStr ''length'') # map (\<lambda>i. Track a GET (KInt i)) [0..<l]"
proof -
  have "calls (foldl (\<lambda>s i. track a GET (KInt i) s) s0 xs) =
      calls s0 @ map (\<lambda>i. Track a GET (KInt i)) xs" for s0 xs
    by (induction xs arbitrary: s0) simp_all
  then show ?thesis by (simp add: tracked_reads_def)
qed

lemma receiver_base_tracked_reads [simp]:
  "receiver_base (tracked_reads a l st) x = receiver_base st x"
  by (auto simp: receiver_base_def split: val.splits option.splits cell.splits)

lemma raw_value_tracked_reads [simp]: "raw_value (tracked_reads a l st) x = raw_value st x"
  by (auto simp: raw_value_def split: val.splits option.splits cell.splits)

lemma toRaw_arg:
  assumes "raw_value st x \<or> receiver_base st x \<noteq> None"
  shows "toRaw (Suc (Suc (Suc n))) x st = Inr (unwrap_arg st x, st)"
proof (cases "receiver_base st x")
  case (Some b)
  then show ?thesis using toRaw_receiver_base [OF Some, of n] by (simp add: unwrap_arg_def)
next
  case None
  with assms have "raw_value st x" by simp
  then show ?thesis using None toRaw_raw_value [of st x "Suc n"] by (simp add: unwrap_arg_def)
qed

lemma map_toRaw_args:
  assumes "\<forall>x \<in> set args. raw_value st x \<or> receiver_base st x \<noteq> None"
  shows "map_toRaw (Suc (Suc (Suc n))) args st = Inr (map (unwrap_arg st) args, st)"
  using assms
  by (induction args) (simp_all add: toRaw_arg del: toRaw.simps)

lemma mutable_array_wrapper_D:
  assumes "mutable_array_wrapper st w a ob"
  obtains hs where "heap st w = Some (Proxy a hs)" "\<not> get_isReadonly hs" "\<not> is_collection hs"
    "registry (handlers_registry hs) st a = Some w" "a < w" "heap st a = Some (Ordinary ob)"
    "raw_type ob = ''Array''" "props ob (KStr ''length'') = None" "props ob RAW = None"
    "\<And>s. s \<in> set search_methods \<union> set mutator_methods \<Longrightarrow> props ob (KStr s) = None"
  using assms
  by (auto simp: mutable_array_wrapper_def split: option.splits cell.splits)

lemma mutable_array_wrapper_base:
  assumes "mutable_array_wrapper st w a ob"
  shows "receiver_base st (VObj w) = Some a"
  using assms
  by (rule mutable_array_wrapper_D) (simp add: receiver_base_def ordinary_get_RAW)

lemma array_length_read:
  assumes "mutable_array_wrapper st w a ob"
  shows "js_get (Suc (Suc n)) (VObj w) (KStr ''length'') (VObj w) st =
           Inr (VNum (int (len ob)), track a GET (KStr ''length'') st)"
  using assms
proof (rule mutable_array_wrapper_D)
  fix hs
  assume w: "heap st w = Some (Proxy a hs)" "\<not> get_isReadonly hs" "\<not> is_collection hs"
    and a: "heap st a = Some (Ordinary ob)" "raw_type ob = ''Array''"
      "props ob (KStr ''length'') = None"
  have l: "ordinary_get ob (KStr ''length'') = VNum (int (len ob))"
    using a by (simp add: ordinary_get_def)
  have "createGetter (get_step (js_get n)) False (get_shallow hs) a (KStr ''length'') (VObj w) st =
      Inr (VNum (int (len ob)), track a GET (KStr ''length'') st)"
    using createGetter_ordinary_primitive [OF a(1), of "KStr ''length''" "VObj w" False
        "get_shallow hs" "js_get n"]
    by (simp add: l isNonTrackableKeys_def search_methods_def mutator_methods_def)
  with w show ?thesis by (simp add: get_step_def [of "get_step (js_get n)"])
qed

lemma array_method_read:
  assumes "heap st a = Some (Ordinary ob)" "raw_type ob = ''Array''"
    "props ob (KStr name) = None" "name \<in> set search_methods \<union> set mutator_methods"
  shows "js_get (Suc n) (VObj a) (KStr name) (VObj a) st = Inr (VFun (ArrayProto name), st)"
  using assms
  by (auto simp: ordinary_get_def search_methods_def mutator_methods_def)


lemma track_indices_tracked_reads:
  "track_indices (VObj a) (VNum (int l)) (track a GET (KStr ''length'') st) =
     Inr ((), tracked_reads a l st)"
  by (simp add: track_indices_def tracked_reads_def)

lemma native_call_search:
  assumes "name \<in> set search_methods" "heap st a = Some (Ordinary ob)"
    "native_search name ob args = Some res"
  shows "native_call n name (VObj a) args st = Inr (res, st)"
  using assms by (simp add: native_call_def)

lemma search_instrumentation_eval:
  assumes name: "name \<in> set search_methods"
    and w: "mutable_array_wrapper st w a ob"
    and args: "\<forall>x \<in> set args. raw_value st x \<or> receiver_base st x \<noteq> None"
    and ns: "native_search name ob args = Some res"
      "native_search name ob (map (unwrap_arg st) args) = Some res2"
  shows "search_instrumentation (native_call (Suc (Suc (Suc n)))) (Suc (Suc (Suc n))) name (VObj w) args st =
           Inr (if res = VNum (- 1) \<or> res = VBool False then res2 else res,
                tracked_reads a (len ob) st)"
proof -
  let ?N = "Suc (Suc (Suc n))"
  let ?st3 = "tracked_reads a (len ob) st"
  have a: "heap st a = Some (Ordinary ob)" "raw_type ob = ''Array''"
    and m: "props ob (KStr name) = None"
    using w name by (simp_all add: mutable_array_wrapper_def)
  have a3: "heap ?st3 a = Some (Ordinary ob)" using a by simp
  have s1: "toRaw ?N (VObj w) st = Inr (VObj a, st)"
    using mutable_array_wrapper_base [OF w] by (rule toRaw_receiver_base)
  have s2: "js_get ?N (VObj w) (KStr ''length'') (VObj w) st =
      Inr (VNum (int (len ob)), track a GET (KStr ''length'') st)"
    using array_length_read [OF w, of "Suc n"] .
  have s4: "js_get ?N (VObj a) (KStr name) (VObj a) ?st3 = Inr (VFun (ArrayProto name), ?st3)"
    using a3 a(2) m name by (intro array_method_read) auto
  have s5: "native_call ?N name (VObj a) args ?st3 = Inr (res, ?st3)"
    using name a3 ns(1) by (rule native_call_search)
  have args3: "\<forall>x \<in> set args. raw_value ?st3 x \<or> receiver_base ?st3 x \<noteq> None"
    using args by simp
  have u: "map (unwrap_arg ?st3) args = map (unwrap_arg st) args"
    by (simp add: unwrap_arg_def)
  have s6: "map_toRaw ?N args ?st3 = Inr (map (unwrap_arg st) args, ?st3)"
    using map_toRaw_args [OF args3, of n] u by simp
  have s7: "native_call ?N name (VObj a) (map (unwrap_arg st) args) ?st3 = Inr (res2, ?st3)"
    using name a3 ns(2) by (rule native_call_search)
  show ?thesis
  proof (cases "res = VNum (- 1) \<or> res = VBool False")
    case True
    then show ?thesis
      unfolding search_instrumentation_def
      by (simp only: s1 s2 bindr_Inr track_indices_tracked_reads s4 apply_native_def val.case
          fn.case s5 s6 s7 if_True)
  next
    case False
    then show ?thesis
      unfolding search_instrumentation_def
      by (simp only: s1 s2 bindr_Inr track_indices_tracked_reads s4 apply_native_def val.case
          fn.case s5 s6 s7 if_False)
  qed
qed

text \<open>
  Claim C8. For a mutable wrapper of a raw array and each of \<open>includes\<close>, \<open>indexOf\<close>,
  \<open>lastIndexOf\<close>, with arguments that are raw values or registered wrappers of raw objects: the
  replacement method calls \<open>track\<close> with \<open>GET\<close> on the raw array for \<open>length\<close> (the read of
  \<open>this.length\<close> through the wrapper) and then for every index below the length, in order; it
  runs the native method on the raw array with the arguments as given; it returns that result
  unless it is \<open>-1\<close> or \<open>false\<close>, and in that case returns what the native method gives on the
  raw array with every argument unwrapped; the heap is not changed.
\<close>

theorem search_shim:
  assumes name: "name \<in> set search_methods"
    and w: "mutable_array_wrapper st w a ob"
    and args: "\<forall>x \<in> set args. raw_value st x \<or> receiver_base st x \<noteq> None"
    and ns: "native_search name ob args = Some res"
      "native_search name ob (map (unwrap_arg st) args) = Some res2"
  shows "search_instrumentation (native_call (Suc (Suc (Suc n)))) (Suc (Suc (Suc n))) name (VObj w) args st =
           Inr (if res = VNum (- 1) \<or> res = VBool False then res2 else res,
                tracked_reads a (len ob) st) \<and>
         calls (tracked_reads a (len ob) st) =
           calls st @ Track a GET (KStr ''length'') # map (\<lambda>i. Track a GET (KInt i)) [0..<len ob] \<and>
         heap (tracked_reads a (len ob) st) = heap st"
  by (intro conjI search_instrumentation_eval [OF assms] calls_tracked_reads heap_tracked_reads)


lemma nested_array_state_eq:
  "nested_array_state =
     \<lparr>heap = [0 \<mapsto> Ordinary \<lparr>raw_type = ''Object'', extensible = True, props = Map.empty, len = 0\<rparr>,
              1 \<mapsto> Ordinary \<lparr>raw_type = ''Array'', extensible = True,
                    props = [KInt 0 \<mapsto> VObj 0], len = 1\<rparr>,
              2 \<mapsto> Proxy 1 MutableHandlers, 3 \<mapsto> Proxy 0 MutableHandlers],
      nxt = 4, reactiveMap = [1 \<mapsto> 2, 0 \<mapsto> 3], shallowReactiveMap = Map.empty,
      readonlyMap = Map.empty, shallowReadonlyMap = Map.empty, dev = True, activeEffect = True,
      shouldTrack = True, trackStack = [], deps = [], calls = []\<rparr>"
  by (simp add: numeral_2_eq_2 numeral_3_eq_3 eval_nat_numeral nested_array_state_def
      new_object_def new_array_def init_state_def state_of_def reactive_def isReadonly_def
      createReactiveObject_def get_step_def ordinary_get_def map_get_def registry_def map_set_def
      getTargetType_def isExtensible_def toRawType_def targetTypeMap_def search_methods_def
      mutator_methods_def)

theorem search_shim_witness:
  "search_instrumentation (native_call (Suc (Suc (Suc 0)))) (Suc (Suc (Suc 0))) ''includes'' (VObj 2) [VObj 3] nested_array_state =
     Inr (VBool True, tracked_reads 1 1 nested_array_state) \<and>
   calls (tracked_reads 1 1 nested_array_state) =
     [Track 1 GET (KStr ''length''), Track 1 GET (KInt 0)] \<and>
   native_search ''includes''
     \<lparr>raw_type = ''Array'', extensible = True, props = [KInt 0 \<mapsto> VObj 0], len = 1\<rparr> [VObj 3] =
     Some (VBool False)"
proof -
  let ?ob = "\<lparr>raw_type = ''Array'', extensible = True, props = [KInt 0 \<mapsto> VObj 0], len = 1\<rparr>"
  let ?st = nested_array_state
  have name: "''includes'' \<in> set search_methods"
    by (simp add: search_methods_def)
  have w: "mutable_array_wrapper ?st 2 1 ?ob"
    by (simp add: mutable_array_wrapper_def nested_array_state_eq registry_def
        handlers_registry_def variant_map_def search_methods_def mutator_methods_def)
  have rb: "receiver_base ?st (VObj 3) = Some 0"
    by (simp add: receiver_base_def nested_array_state_eq registry_def handlers_registry_def
        variant_map_def ordinary_get_def)
  then have args: "\<forall>x \<in> set [VObj 3]. raw_value ?st x \<or> receiver_base ?st x \<noteq> None"
    by simp
  have n1: "native_search ''includes'' ?ob [VObj 3] = Some (VBool False)"
    by (simp add: native_search_def from_index_def element_def search_element_def)
  have n2: "native_search ''includes'' ?ob (map (unwrap_arg ?st) [VObj 3]) = Some (VBool True)"
    by (simp add: native_search_def from_index_def element_def search_element_def unwrap_arg_def rb)
  have c: "calls ?st = []" by (simp add: nested_array_state_eq)
  from search_shim [OF name w args n1 n2, of 0] n1 c show ?thesis
    by (simp add: upt_rec del: js_get.simps toRaw.simps)
qed

section \<open>Length-altering array methods\<close>

lemma mutable_array_wrapper_setter:
  assumes w: "mutable_array_wrapper st w a ob"
  obtains sh where
    "js_set (Suc N) (VObj w) k v (VObj w) st = createSetter N (js_set N) sh a k v (VObj w) st"
  using w
  by (rule mutable_array_wrapper_D) (simp add: set_step_def)

lemma raw_value_primitive: "\<not> isObject v \<Longrightarrow> raw_value st v"
  by (cases v) (simp_all add: raw_value_def)

lemma is_box_primitive: "\<not> isObject v \<Longrightarrow> \<not> is_box st v"
  by (cases v) (simp_all add: is_box_def)

lemma own_flag_primitive: "\<not> isObject v \<Longrightarrow> \<not> own_flag st v k"
  by (cases v) (simp_all add: own_flag_def)

lemma array_append_write:
  assumes w: "mutable_array_wrapper st w a ob" and g: "growable ob" and e: "\<not> isObject e"
    and ix: "is_array_index (len ob)"
  shows "js_set (Suc (Suc (Suc (Suc n)))) (VObj w) (KInt (len ob)) e (VObj w) st =
     Inr (True, trigger a ADD (KInt (len ob)) e VUndefined
       (st\<lparr>heap := (heap st)(a \<mapsto> Ordinary
             (ob\<lparr>props := (props ob)(KInt (len ob) \<mapsto> e), len := Suc (len ob)\<rparr>))\<rparr>))"
proof -
  let ?k = "KInt (len ob)"
  from w have h: "heap st a = Some (Ordinary ob)" and ar: "raw_type ob = ''Array''"
    and pl: "props ob (KStr ''length'') = None"
    by (simp_all add: mutable_array_wrapper_def)
  have pk: "props ob ?k = None" using g by (simp add: growable_def)
  have og: "ordinary_get ob ?k = VUndefined" using pk ar by (simp add: ordinary_get_def)
  have old: "raw_value st (ordinary_get ob ?k)" by (simp add: og raw_value_def)
  have v: "raw_value st e" using e by (rule raw_value_primitive)
  have nr: "\<not> (own_flag st (ordinary_get ob ?k) IS_READONLY \<and> is_box st (ordinary_get ob ?k) \<and>
                \<not> is_box st e)" by (simp add: og own_flag_def)
  have nb: "\<not> (\<not> sh \<and> raw_type ob \<noteq> ''Array'' \<and> is_box st (ordinary_get ob ?k) \<and>
                \<not> is_box st e)" for sh by (simp add: ar)
  have rb: "receiver_base st (VObj w) = Some a" using w by (rule mutable_array_wrapper_base)
  have d: "define_own ob ?k e =
      Inr (Some (ob\<lparr>props := (props ob)(?k \<mapsto> e), len := Suc (len ob)\<rparr>))"
    using pk g ar ix by (simp add: define_own_def growable_def)
  have hk: "\<not> hadKey_before ob ?k"
    using ar pl by (simp add: hadKey_before_def ordinary_get_def)
  obtain sh where s: "js_set (Suc (Suc (Suc (Suc n)))) (VObj w) ?k e (VObj w) st =
      createSetter (Suc (Suc (Suc n))) (js_set (Suc (Suc (Suc n)))) sh a ?k e (VObj w) st"
    using w by (rule mutable_array_wrapper_setter)
  have kr: "?k \<noteq> RAW" by simp
  show ?thesis
    unfolding s createSetter_write [OF h old v nr nb rb h kr, where n = n and m = "Suc (Suc n)"]
    by (simp add: d hk)
qed

lemma array_length_write:
  assumes w: "mutable_array_wrapper st w a ob" and l: "len ob < 4294967296"
  shows "js_set (Suc (Suc (Suc (Suc n)))) (VObj w) (KStr ''length'') (VNum (int (len ob))) (VObj w) st =
     Inr (True, st\<lparr>heap := (heap st)(a \<mapsto> Ordinary
             (ob\<lparr>props := (\<lambda>j. case j of
                                  KInt i \<Rightarrow>
                                    if i < len ob \<or> \<not> is_array_index i then props ob j else None
                                | _ \<Rightarrow> props ob j),
                  len := len ob\<rparr>))\<rparr>)"
proof -
  let ?k = "KStr ''length''"
  let ?v = "VNum (int (len ob))"
  from w have h: "heap st a = Some (Ordinary ob)" and ar: "raw_type ob = ''Array''"
    and pl: "props ob (KStr ''length'') = None"
    by (simp_all add: mutable_array_wrapper_def)
  have og: "ordinary_get ob ?k = ?v" using pl ar by (simp add: ordinary_get_def)
  have old: "raw_value st (ordinary_get ob ?k)" by (simp add: og raw_value_def)
  have v: "raw_value st ?v" by (simp add: raw_value_def)
  have nr: "\<not> (own_flag st (ordinary_get ob ?k) IS_READONLY \<and> is_box st (ordinary_get ob ?k) \<and>
                \<not> is_box st ?v)" by (simp add: og own_flag_def)
  have nb: "\<not> (\<not> sh \<and> raw_type ob \<noteq> ''Array'' \<and> is_box st (ordinary_get ob ?k) \<and>
                \<not> is_box st ?v)" for sh by (simp add: ar)
  have rb: "receiver_base st (VObj w) = Some a" using w by (rule mutable_array_wrapper_base)
  have d: "define_own ob ?k ?v =
      Inr (Some (ob\<lparr>props := (\<lambda>j. case j of
                                  KInt i \<Rightarrow>
                                    if i < len ob \<or> \<not> is_array_index i then props ob j else None
                                | _ \<Rightarrow> props ob j),
               len := len ob\<rparr>))"
    using ar l by (simp add: define_own_def)
  have hk: "hadKey_before ob ?k"
    using ar by (simp add: hadKey_before_def ordinary_hasOwn_def)
  obtain sh where s: "js_set (Suc (Suc (Suc (Suc n)))) (VObj w) ?k ?v (VObj w) st =
      createSetter (Suc (Suc (Suc n))) (js_set (Suc (Suc (Suc n)))) sh a ?k ?v (VObj w) st"
    using w by (rule mutable_array_wrapper_setter)
  have kr: "?k \<noteq> RAW" by simp
  show ?thesis
    unfolding s createSetter_write [OF h old v nr nb rb h kr, where n = n and m = "Suc (Suc n)"]
    by (simp add: d hk og hasChanged_def)
qed

lemma mutable_array_wrapper_update:
  assumes w: "mutable_array_wrapper st w a ob"
    and ob': "raw_type ob' = ''Array''" "props ob' (KStr ''length'') = None" "props ob' RAW = None"
      "\<forall>s \<in> set search_methods \<union> set mutator_methods. props ob' (KStr s) = None"
    and st': "heap st' = (heap st)(a \<mapsto> Ordinary ob')" "\<And>m. registry m st' = registry m st"
  shows "mutable_array_wrapper st' w a ob'"
proof -
  from w have "a \<noteq> w" by (simp add: mutable_array_wrapper_def)
  with w ob' st' show ?thesis
    by (simp add: mutable_array_wrapper_def split: option.splits cell.splits)
qed

lemma put_items_append:
  assumes "mutable_array_wrapper st w a ob" "growable ob" "\<forall>e \<in> set args. \<not> isObject e"
    and "len ob + length args < 4294967296"
  shows "\<exists>st' ob'.
      run (Suc (Suc (Suc (Suc n)))) (put_items (VObj w) (len ob) args rest) st =
        run (Suc (Suc (Suc (Suc n)))) rest st' \<and>
      mutable_array_wrapper st' w a ob' \<and> len ob' = len ob + length args \<and>
      shouldTrack st' = shouldTrack st \<and> trackStack st' = trackStack st \<and>
      deps st' = deps st \<and> calls st' = calls st @ add_triggers a (len ob) args"
  using assms
proof (induction args arbitrary: st ob)
  case Nil
  then show ?case
    by (intro exI [where x = st] exI [where x = ob]) simp
next
  case (Cons e es)
  let ?ob1 = "ob\<lparr>props := (props ob)(KInt (len ob) \<mapsto> e), len := Suc (len ob)\<rparr>"
  let ?st1 = "trigger a ADD (KInt (len ob)) e VUndefined
                (st\<lparr>heap := (heap st)(a \<mapsto> Ordinary ?ob1)\<rparr>)"
  have e: "\<not> isObject e" and es: "\<forall>x \<in> set es. \<not> isObject x" using Cons.prems(3) by simp_all
  have ix: "is_array_index (len ob)" using Cons.prems(4) by (simp add: is_array_index_def)
  have w1: "mutable_array_wrapper ?st1 w a ?ob1"
    using Cons.prems(1)
    by (intro mutable_array_wrapper_update [OF Cons.prems(1)])
       (simp_all add: mutable_array_wrapper_def)
  have g1: "growable ?ob1" using Cons.prems(2) by (simp add: growable_def)
  have b1: "len ?ob1 + length es < 4294967296" using Cons.prems(4) by simp
  from Cons.IH [OF w1 g1 es b1] obtain st' ob' where
    ih: "run (Suc (Suc (Suc (Suc n)))) (put_items (VObj w) (len ?ob1) es rest) ?st1 =
        run (Suc (Suc (Suc (Suc n)))) rest st'"
      "mutable_array_wrapper st' w a ob'" "len ob' = len ?ob1 + length es"
      "shouldTrack st' = shouldTrack ?st1" "trackStack st' = trackStack ?st1"
      "deps st' = deps ?st1" "calls st' = calls ?st1 @ add_triggers a (len ?ob1) es"
    by blast
  have "run (Suc (Suc (Suc (Suc n)))) (put_items (VObj w) (len ob) (e # es) rest) st =
      run (Suc (Suc (Suc (Suc n)))) rest st'"
    using array_append_write [OF Cons.prems(1,2) e ix, of n] ih(1)
    by (simp del: js_set.simps)
  with ih(2-7) show ?case
    by (intro exI [where x = st'] exI [where x = ob']) (simp add: trigger_def)
qed

section \<open>Tracking state across the traps\<close>

lemma tracking_kept_refl [simp]: "tracking_kept st st"
  by (simp add: tracking_kept_def)

lemma tracking_kept_trans:
  "tracking_kept st s \<Longrightarrow> tracking_kept s s' \<Longrightarrow> tracking_kept st s'"
  by (auto simp: tracking_kept_def)

lemma tracking_kept_track [simp]:
  "tracking_kept st0 s \<Longrightarrow> tracking_kept st0 (track t ty k s)"
  by (auto simp: tracking_kept_def track_def)

lemma tracking_kept_trigger [simp]:
  "tracking_kept st0 s \<Longrightarrow> tracking_kept st0 (trigger t ty k v old s)"
  by (auto simp: tracking_kept_def trigger_def)

lemma tracking_kept_warn [simp]:
  "tracking_kept st0 s \<Longrightarrow> tracking_kept st0 (warn msg s)"
  by (auto simp: tracking_kept_def warn_def)

lemma tracking_kept_map_set [simp]:
  "tracking_kept st0 s \<Longrightarrow> tracking_kept st0 (map_set pm a p s)"
  by (cases pm) (auto simp: tracking_kept_def map_set_def)

lemma tracking_kept_heap [simp]:
  "tracking_kept st0 s \<Longrightarrow> tracking_kept st0 (s\<lparr>heap := h\<rparr>)"
  by (auto simp: tracking_kept_def)

lemma tracking_kept_heap_nxt [simp]:
  "tracking_kept st0 s \<Longrightarrow> tracking_kept st0 (s\<lparr>heap := h, nxt := x\<rparr>)"
  by (auto simp: tracking_kept_def)

lemma keeps_Inl [simp]: "keeps (Inl e) st0"
  by (simp add: keeps_def)

lemma keeps_Inr [simp]: "keeps (Inr (v, s)) st0 = tracking_kept st0 s"
  by (simp add: keeps_def)

lemma keeps_bindr:
  assumes "keeps m st0" and "\<And>v s. tracking_kept st0 s \<Longrightarrow> keeps (f v s) st0"
  shows "keeps (bindr m f) st0"
  using assms by (cases m) (auto simp: bindr_def keeps_def)

lemma keeps_andr:
  assumes "keeps m st0" and "\<And>s. tracking_kept st0 s \<Longrightarrow> keeps (f s) st0"
  shows "keeps (andr m f) st0"
  unfolding andr_def using assms by (intro keeps_bindr) auto

lemma keeps_notr: "keeps m st0 \<Longrightarrow> keeps (notr m) st0"
  unfolding notr_def by (intro keeps_bindr) auto

lemma keeps_lift_option: "tracking_kept st0 s \<Longrightarrow> keeps (lift_option x s) st0"
  by (cases x) (simp_all add: lift_option_def)

lemma isRef_keeps:
  assumes "\<And>x k r s. tracking_kept st0 s \<Longrightarrow> keeps (get x k r s) st0" "tracking_kept st0 st"
  shows "keeps (isRef get r st) st0"
  unfolding isRef_def using assms by (auto intro!: keeps_bindr)

lemma isReadonly_keeps:
  assumes "\<And>x k r s. tracking_kept st0 s \<Longrightarrow> keeps (get x k r s) st0" "tracking_kept st0 st"
  shows "keeps (isReadonly get r st) st0"
  unfolding isReadonly_def using assms by (auto intro!: keeps_bindr)

lemma isShallow_keeps:
  assumes "\<And>x k r s. tracking_kept st0 s \<Longrightarrow> keeps (get x k r s) st0" "tracking_kept st0 st"
  shows "keeps (isShallow get r st) st0"
  unfolding isShallow_def using assms by (auto intro!: keeps_bindr)

lemma getTargetType_keeps:
  assumes "\<And>x k r s. tracking_kept st0 s \<Longrightarrow> keeps (get x k r s) st0" "tracking_kept st0 st"
  shows "keeps (getTargetType get v st) st0"
  unfolding getTargetType_def using assms
  by (auto intro!: keeps_bindr split: val.splits option.splits)

lemma createReactiveObject_keeps:
  assumes g: "\<And>x k r s. tracking_kept st0 s \<Longrightarrow> keeps (get x k r s) st0"
    and st: "tracking_kept st0 st"
  shows "keeps (createReactiveObject get target ro bh ch pm st) st0"
  unfolding createReactiveObject_def using assms
  by (auto intro!: keeps_bindr getTargetType_keeps simp: Let_def split: val.splits)

lemma reactive_keeps:
  assumes g: "\<And>x k r s. tracking_kept st0 s \<Longrightarrow> keeps (get x k r s) st0"
    and st: "tracking_kept st0 st"
  shows "keeps (reactive get target st) st0"
  unfolding reactive_def using assms
  by (auto intro!: keeps_bindr isReadonly_keeps createReactiveObject_keeps)

lemma readonly_keeps:
  assumes g: "\<And>x k r s. tracking_kept st0 s \<Longrightarrow> keeps (get x k r s) st0"
    and st: "tracking_kept st0 st"
  shows "keeps (readonly get target st) st0"
  unfolding readonly_def using assms
  by (auto intro!: createReactiveObject_keeps)

lemma collection_get_keeps:
  "tracking_kept st0 st \<Longrightarrow> keeps (collection_get ro sh t k r st) st0"
  by (simp add: collection_get_def)

lemma createGetter_keeps:
  assumes g: "\<And>x k r s. tracking_kept st0 s \<Longrightarrow> keeps (get x k r s) st0"
    and st: "tracking_kept st0 st"
  shows "keeps (createGetter get ro sh t k r st) st0"
  unfolding createGetter_def using assms
  by (auto intro!: keeps_bindr isRef_keeps reactive_keeps readonly_keeps simp: Let_def
      split: option.splits)

lemma get_step_keeps:
  assumes g: "\<And>x k r s. tracking_kept st0 s \<Longrightarrow> keeps (get x k r s) st0"
    and st: "tracking_kept st0 st"
  shows "keeps (get_step get v k r st) st0"
  unfolding get_step_def using assms
  by (auto intro!: createGetter_keeps collection_get_keeps split: val.splits option.splits cell.splits)

lemma js_get_keeps:
  "tracking_kept st0 st \<Longrightarrow> keeps (js_get n v k r st) st0"
proof (induction n arbitrary: v k r st)
  case 0
  then show ?case by simp
next
  case (Suc n)
  show ?case unfolding js_get.simps
    by (rule get_step_keeps) (rule Suc.IH, assumption, rule Suc.prems)
qed


lemma toRaw_keeps:
  "tracking_kept st0 st \<Longrightarrow> keeps (toRaw n v st) st0"
proof (induction n arbitrary: v st)
  case 0
  then show ?case by simp
next
  case (Suc n)
  show ?case unfolding toRaw.simps
    using Suc.prems by (auto intro!: keeps_bindr js_get_keeps Suc.IH)
qed

lemma ordinary_set_keeps:
  "tracking_kept st0 st \<Longrightarrow> keeps (ordinary_set k v r st) st0"
  by (auto simp: ordinary_set_def split: val.splits option.splits sum.splits)

lemma createSetter_keeps:
  assumes p: "\<And>x k v r s. tracking_kept st0 s \<Longrightarrow> keeps (put x k v r s) st0"
    and st: "tracking_kept st0 st"
  shows "keeps (createSetter n put sh t k v r st) st0"
  unfolding createSetter_def using assms
  by (auto intro!: keeps_bindr keeps_andr keeps_notr keeps_lift_option js_get_keeps toRaw_keeps
        isRef_keeps isReadonly_keeps isShallow_keeps)

lemma readonly_set_keeps:
  "tracking_kept st0 st \<Longrightarrow> keeps (readonly_set t k st) st0"
  by (simp add: readonly_set_def)

lemma set_step_keeps:
  assumes p: "\<And>x k v r s. tracking_kept st0 s \<Longrightarrow> keeps (put x k v r s) st0"
    and st: "tracking_kept st0 st"
  shows "keeps (set_step n put x k v r st) st0"
  unfolding set_step_def using assms
  by (auto intro!: createSetter_keeps ordinary_set_keeps readonly_set_keeps
      split: val.splits option.splits cell.splits)

lemma js_set_keeps:
  "tracking_kept st0 st \<Longrightarrow> keeps (js_set n x k v r st) st0"
proof (induction n arbitrary: x k v r st)
  case 0
  then show ?case by simp
next
  case (Suc n)
  show ?case unfolding js_set.simps
    by (rule set_step_keeps) (rule Suc.IH, assumption, rule Suc.prems)
qed

lemma ordinary_delete_keeps:
  "tracking_kept st0 st \<Longrightarrow> keeps (ordinary_delete a ob k st) st0"
  by (simp add: ordinary_delete_def)

lemma deleteProperty_keeps:
  assumes p: "\<And>x k s. tracking_kept st0 s \<Longrightarrow> keeps (del x k s) st0"
    and st: "tracking_kept st0 st"
  shows "keeps (deleteProperty n del t k st) st0"
  unfolding deleteProperty_def using assms
  by (auto intro!: keeps_bindr keeps_lift_option js_get_keeps)

lemma readonly_deleteProperty_keeps:
  "tracking_kept st0 st \<Longrightarrow> keeps (readonly_deleteProperty t k st) st0"
  by (simp add: readonly_deleteProperty_def)

lemma delete_step_keeps:
  assumes p: "\<And>x k s. tracking_kept st0 s \<Longrightarrow> keeps (del x k s) st0"
    and st: "tracking_kept st0 st"
  shows "keeps (delete_step n del x k st) st0"
  unfolding delete_step_def using assms
  by (auto intro!: deleteProperty_keeps ordinary_delete_keeps readonly_deleteProperty_keeps
      split: val.splits option.splits cell.splits)

lemma js_delete_keeps:
  "tracking_kept st0 st \<Longrightarrow> keeps (js_delete n x k st) st0"
proof (induction n arbitrary: x k st)
  case 0
  then show ?case by simp
next
  case (Suc n)
  show ?case unfolding js_delete.simps
    by (rule delete_step_keeps) (rule Suc.IH, assumption, rule Suc.prems)
qed

lemma has_keeps:
  assumes p: "\<And>x k s. tracking_kept st0 s \<Longrightarrow> keeps (hasP x k s) st0"
    and st: "tracking_kept st0 st"
  shows "keeps (has hasP t k st) st0"
  unfolding has_def using assms
  by (auto intro!: keeps_bindr)

lemma has_step_keeps:
  assumes p: "\<And>x k s. tracking_kept st0 s \<Longrightarrow> keeps (hasP x k s) st0"
    and st: "tracking_kept st0 st"
  shows "keeps (has_step hasP x k st) st0"
  unfolding has_step_def using assms
  by (auto intro!: has_keeps split: val.splits option.splits cell.splits)

lemma js_has_keeps:
  "tracking_kept st0 st \<Longrightarrow> keeps (js_has n x k st) st0"
proof (induction n arbitrary: x k st)
  case 0
  then show ?case by simp
next
  case (Suc n)
  show ?case unfolding js_has.simps
    by (rule has_step_keeps) (rule Suc.IH, assumption, rule Suc.prems)
qed

lemma run_keeps:
  "tracking_kept st0 st \<Longrightarrow> keeps (run n p st) st0"
proof (induction p arbitrary: st)
  case (Return v)
  then show ?case by simp
next
  case (Throw e)
  then show ?case by simp
next
  case (Get x k c)
  then show ?case by (auto intro!: keeps_bindr js_get_keeps)
next
  case (Put x k v c)
  then show ?case by (auto intro!: keeps_bindr js_set_keeps)
next
  case (Delete x k c)
  then show ?case by (auto intro!: keeps_bindr js_delete_keeps)
next
  case (Has x k c)
  then show ?case by (auto intro!: keeps_bindr js_has_keeps)
next
  case (NewArray l c)
  then show ?case by auto
qed

lemma run_paused:
  assumes "run n p (pauseTracking st) = Inr (res, st3)"
  shows "shouldTrack (resetTracking st3) = shouldTrack st \<and>
         trackStack (resetTracking st3) = trackStack st \<and>
         deps (resetTracking st3) = deps st \<and>
         heap (resetTracking st3) = heap st3 \<and> calls (resetTracking st3) = calls st3"
proof -
  have "keeps (run n p (pauseTracking st)) (pauseTracking st)"
    by (rule run_keeps) simp
  with assms have "tracking_kept (pauseTracking st) st3" by simp
  then show ?thesis
    by (simp add: tracking_kept_def pauseTracking_def resetTracking_def)
qed

section \<open>The length-altering replacement methods\<close>

lemma registry_pauseTracking [simp]: "registry m (pauseTracking st) = registry m st"
  by (cases m) (simp_all add: registry_def pauseTracking_def)

lemma heap_pauseTracking [simp]: "heap (pauseTracking st) = heap st"
  by (simp add: pauseTracking_def)

lemma mutable_array_wrapper_same_heap:
  assumes "mutable_array_wrapper st w a ob" "heap st' = heap st"
    "\<And>m. registry m st' = registry m st"
  shows "mutable_array_wrapper st' w a ob"
  using assms
  by (auto simp: mutable_array_wrapper_def split: option.splits cell.splits)

lemma mutator_instrumentation_eval:
  assumes w: "mutable_array_wrapper st w a ob" and name: "name \<in> set mutator_methods"
  shows "mutator_instrumentation native (Suc (Suc (Suc n))) name (VObj w) args st =
           bindr (native name (VObj w) args (pauseTracking st))
             (\<lambda>res st3. Inr (res, resetTracking st3))"
proof -
  let ?s0 = "pauseTracking st"
  have w0: "mutable_array_wrapper ?s0 w a ob"
    using w by (rule mutable_array_wrapper_same_heap) simp_all
  have s1: "toRaw (Suc (Suc (Suc n))) (VObj w) ?s0 = Inr (VObj a, ?s0)"
    using mutable_array_wrapper_base [OF w0] by (rule toRaw_receiver_base)
  have s2: "js_get (Suc (Suc (Suc n))) (VObj a) (KStr name) (VObj a) ?s0 =
      Inr (VFun (ArrayProto name), ?s0)"
  proof (rule mutable_array_wrapper_D [OF w0])
    fix hs
    assume "heap ?s0 a = Some (Ordinary ob)" "raw_type ob = ''Array''"
      "\<And>s. s \<in> set search_methods \<union> set mutator_methods \<Longrightarrow> props ob (KStr s) = None"
    then show ?thesis using name by (intro array_method_read) auto
  qed
  show ?thesis
    unfolding mutator_instrumentation_def
    by (simp only: s1 s2 bindr_Inr apply_native_def val.case fn.case)
qed

lemma mutator_on_raw_eval:
  assumes w: "mutable_array_wrapper st w a ob" and name: "name \<in> set mutator_methods"
  shows "mutator_on_raw native (Suc (Suc (Suc n))) name (VObj w) args st =
           bindr (native name (VObj a) args (pauseTracking st))
             (\<lambda>res st3. Inr (res, resetTracking st3))"
proof -
  let ?s0 = "pauseTracking st"
  have w0: "mutable_array_wrapper ?s0 w a ob"
    using w by (rule mutable_array_wrapper_same_heap) simp_all
  have s1: "toRaw (Suc (Suc (Suc n))) (VObj w) ?s0 = Inr (VObj a, ?s0)"
    using mutable_array_wrapper_base [OF w0] by (rule toRaw_receiver_base)
  have s2: "js_get (Suc (Suc (Suc n))) (VObj a) (KStr name) (VObj a) ?s0 =
      Inr (VFun (ArrayProto name), ?s0)"
  proof (rule mutable_array_wrapper_D [OF w0])
    fix hs
    assume "heap ?s0 a = Some (Ordinary ob)" "raw_type ob = ''Array''"
      "\<And>s. s \<in> set search_methods \<union> set mutator_methods \<Longrightarrow> props ob (KStr s) = None"
    then show ?thesis using name by (intro array_method_read) auto
  qed
  show ?thesis
    unfolding mutator_on_raw_def
    by (simp only: s1 s2 bindr_Inr apply_native_def val.case fn.case)
qed

lemma push_method_wrapper:
  assumes w: "mutable_array_wrapper st w a ob" and g: "growable ob"
    and args: "\<forall>e \<in> set args. \<not> isObject e"
    and bound: "len ob + length args < 4294967296"
  shows "\<exists>st' ob'.
      run (Suc (Suc (Suc (Suc n)))) (push_method (VObj w) args) st =
        Inr (VNum (int (len ob + length args)), st') \<and>
      mutable_array_wrapper st' w a ob' \<and> len ob' = len ob + length args \<and>
      shouldTrack st' = shouldTrack st \<and> trackStack st' = trackStack st \<and>
      deps st' = deps st @ (if shouldTrack st \<and> activeEffect st then [(a, KStr ''length'')] else []) \<and>
      calls st' = calls st @ Track a GET (KStr ''length'') # add_triggers a (len ob) args"
proof -
  let ?N = "Suc (Suc (Suc (Suc n)))"
  let ?s1 = "track a GET (KStr ''length'') st"
  let ?L = "len ob + length args"
  let ?rest = "set_length (VObj w) ?L (VNum (int ?L))"
  have w1: "mutable_array_wrapper ?s1 w a ob"
    using w by (rule mutable_array_wrapper_same_heap) simp_all
  have r: "js_get ?N (VObj w) (KStr ''length'') (VObj w) st = Inr (VNum (int (len ob)), ?s1)"
    using array_length_read [OF w, of "Suc (Suc n)"] .
  from put_items_append [OF w1 g args bound, of n ?rest] obtain s2 ob2 where
    p: "run ?N (put_items (VObj w) (len ob) args ?rest) ?s1 = run ?N ?rest s2"
      "mutable_array_wrapper s2 w a ob2" "len ob2 = ?L"
      "shouldTrack s2 = shouldTrack ?s1" "trackStack s2 = trackStack ?s1"
      "deps s2 = deps ?s1" "calls s2 = calls ?s1 @ add_triggers a (len ob) args"
    by blast
  let ?ob3 = "ob2\<lparr>props := (\<lambda>j. case j of
                                  KInt i \<Rightarrow>
                                    if i < len ob2 \<or> \<not> is_array_index i then props ob2 j else None
                                | _ \<Rightarrow> props ob2 j),
                  len := len ob2\<rparr>"
  let ?s3 = "s2\<lparr>heap := (heap s2)(a \<mapsto> Ordinary ?ob3)\<rparr>"
  have l2: "len ob2 < 4294967296" using p(3) bound by simp
  have lw: "js_set ?N (VObj w) (KStr ''length'') (VNum (int ?L)) (VObj w) s2 = Inr (True, ?s3)"
    using array_length_write [OF p(2) l2, of n] p(3) by simp
  have w3: "mutable_array_wrapper ?s3 w a ?ob3"
    by (rule mutable_array_wrapper_D [OF p(2)], intro mutable_array_wrapper_update [OF p(2)])
       simp_all
  have fin: "run ?N ?rest s2 = Inr (VNum (int ?L), ?s3)"
    unfolding set_length_def run.simps lw by simp
  have lo: "nat (min (int (len ob)) 9007199254740991) = len ob"
    using bound by simp
  have c: "(9007199254740991 < len ob + length args) = False"
    using bound by simp
  have "run ?N (push_method (VObj w) args) st = Inr (VNum (int ?L), ?s3)"
    unfolding push_method_def length_of_def run.simps r
    by (simp only: bindr_Inr val.case lo c if_False p(1) fin)
  with w3 p(3-7) show ?thesis
    by (intro exI [where x = ?s3] exI [where x = ?ob3]) (simp add: track_def)
qed

lemma mutator_push:
  assumes w: "mutable_array_wrapper st w a ob" and g: "growable ob"
    and args: "\<forall>e \<in> set args. \<not> isObject e"
    and bound: "len ob + length args < 4294967296"
  shows "\<exists>st'.
      mutator_instrumentation (run_method array_method (Suc (Suc (Suc (Suc n)))))
        (Suc (Suc (Suc (Suc n)))) ''push'' (VObj w) args st =
          Inr (VNum (int (len ob + length args)), st') \<and>
      shouldTrack st' = shouldTrack st \<and> trackStack st' = trackStack st \<and> deps st' = deps st \<and>
      calls st' = calls st @ Track a GET (KStr ''length'') # add_triggers a (len ob) args"
proof -
  let ?N = "Suc (Suc (Suc (Suc n)))"
  let ?s0 = "pauseTracking st"
  have w0: "mutable_array_wrapper ?s0 w a ob"
    using w by (rule mutable_array_wrapper_same_heap) simp_all
  have name: "''push'' \<in> set mutator_methods" by (simp add: mutator_methods_def)
  from push_method_wrapper [OF w0 g args bound, of n] obtain s' where
    p: "run ?N (push_method (VObj w) args) ?s0 = Inr (VNum (int (len ob + length args)), s')"
      "shouldTrack s' = shouldTrack ?s0" "trackStack s' = trackStack ?s0"
      "deps s' = deps ?s0 @ (if shouldTrack ?s0 \<and> activeEffect ?s0 then [(a, KStr ''length'')] else [])"
      "calls s' = calls ?s0 @ Track a GET (KStr ''length'') # add_triggers a (len ob) args"
    by blast
  have q: "run_method array_method ?N ''push'' (VObj w) args ?s0 =
      Inr (VNum (int (len ob + length args)), s')"
    using p(1) by (simp add: run_method_def array_method_def)
  have e: "mutator_instrumentation (run_method array_method ?N) ?N ''push'' (VObj w) args st =
      Inr (VNum (int (len ob + length args)), resetTracking s')"
    unfolding mutator_instrumentation_eval [OF w name, of "run_method array_method ?N" "Suc n" args]
    by (simp only: q bindr_Inr)
  from p(2-5) have "shouldTrack (resetTracking s') = shouldTrack st \<and>
      trackStack (resetTracking s') = trackStack st \<and> deps (resetTracking s') = deps st \<and>
      calls (resetTracking s') = calls st @ Track a GET (KStr ''length'') # add_triggers a (len ob) args"
    by (simp add: resetTracking_def pauseTracking_def)
  with e show ?thesis by blast
qed

lemma mutator_run:
  assumes w: "mutable_array_wrapper st w a ob" and name: "name \<in> set mutator_methods"
  shows "case run (Suc (Suc (Suc n))) (m name (VObj w) args) (pauseTracking st) of
           Inl e \<Rightarrow>
             mutator_instrumentation (run_method m (Suc (Suc (Suc n)))) (Suc (Suc (Suc n))) name
               (VObj w) args st = Inl e
         | Inr (res, st3) \<Rightarrow>
             mutator_instrumentation (run_method m (Suc (Suc (Suc n)))) (Suc (Suc (Suc n))) name
               (VObj w) args st = Inr (res, resetTracking st3) \<and>
             shouldTrack (resetTracking st3) = shouldTrack st \<and>
             trackStack (resetTracking st3) = trackStack st \<and>
             deps (resetTracking st3) = deps st"
proof -
  let ?N = "Suc (Suc (Suc n))"
  note e = mutator_instrumentation_eval [OF w name, of "run_method m ?N" n args]
  show ?thesis
  proof (cases "run ?N (m name (VObj w) args) (pauseTracking st)")
    case (Inl err)
    then show ?thesis unfolding e by (simp add: run_method_def)
  next
    case (Inr y)
    obtain res st3 where y: "y = (res, st3)" by (cases y)
    from run_paused [of ?N "m name (VObj w) args" st res st3] Inr y
    show ?thesis unfolding e by (simp add: run_method_def)
  qed
qed

section \<open>Writes of wrapped values\<close>

























section \<open>The native methods return on arrays of primitive values\<close>

lemma plain_array_get: "plain_array ob \<Longrightarrow> \<not> isObject (ordinary_get ob k)"
  by (auto simp: plain_array_def ordinary_get_def split: option.splits key.splits)

lemma array_inv_same_heap:
  assumes "array_inv st w a F" "heap st' = heap st" "\<And>m. registry m st' = registry m st"
  shows "array_inv st' w a F"
  using assms mutable_array_wrapper_same_heap [of st w a _ st']
  by (auto simp: array_inv_def)

lemma array_inv_track [simp]: "array_inv (track t ty k st) w a F = array_inv st w a F"
proof
  assume "array_inv (track t ty k st) w a F"
  then show "array_inv st w a F" by (rule array_inv_same_heap) simp_all
next
  assume "array_inv st w a F"
  then show "array_inv (track t ty k st) w a F" by (rule array_inv_same_heap) simp_all
qed

lemma plain_get:
  assumes w: "mutable_array_wrapper st w a ob" and p: "plain_array ob"
    and k: "k = KStr ''length'' \<or> k = KStr ''constructor'' \<or> (\<exists>i. k = KInt i)"
  shows "js_get (Suc (Suc n)) (VObj w) k (VObj w) st = Inr (ordinary_get ob k, track a GET k st)"
  using w
proof (rule mutable_array_wrapper_D)
  fix hs
  assume h: "heap st w = Some (Proxy a hs)" "\<not> get_isReadonly hs" "\<not> is_collection hs"
    and a: "heap st a = Some (Ordinary ob)"
  have "createGetter (get_step (js_get n)) False (get_shallow hs) a k (VObj w) st =
      Inr (ordinary_get ob k, track a GET k st)"
    using createGetter_ordinary_primitive [OF a plain_array_get [OF p], of k "VObj w" False
        "get_shallow hs" "js_get n"] k
    by (auto simp: isNonTrackableKeys_def search_methods_def mutator_methods_def)
  with h show ?thesis by (simp add: get_step_def [of "get_step (js_get n)"])
qed

lemma plain_has:
  assumes w: "mutable_array_wrapper st w a ob"
  shows "js_has (Suc (Suc n)) (VObj w) (KInt i) st =
      Inr (ordinary_has ob (KInt i), track a HAS (KInt i) st)"
  using w
proof (rule mutable_array_wrapper_D)
  fix hs
  assume h: "heap st w = Some (Proxy a hs)" "\<not> get_isReadonly hs" "\<not> is_collection hs"
    and a: "heap st a = Some (Ordinary ob)"
  then show ?thesis by (simp add: has_step_def has_def)
qed


lemma plain_set_index:
  assumes w: "mutable_array_wrapper st w a ob" and p: "plain_array ob"
    and v: "\<not> isObject v" and ix: "is_array_index i"
  shows "\<exists>st' ob'.
      js_set (Suc (Suc (Suc (Suc n)))) (VObj w) (KInt i) v (VObj w) st = Inr (True, st') \<and>
      mutable_array_wrapper st' w a ob' \<and> plain_array ob' \<and>
      (\<forall>x. x \<noteq> a \<longrightarrow> heap st' x = heap st x)"
proof -
  let ?k = "KInt i"
  let ?ob' = "if props ob ?k \<noteq> None then ob\<lparr>props := (props ob)(?k \<mapsto> v)\<rparr>
              else ob\<lparr>props := (props ob)(?k \<mapsto> v), len := max (len ob) (Suc i)\<rparr>"
  from w have h: "heap st a = Some (Ordinary ob)" and ar: "raw_type ob = ''Array''"
    by (simp_all add: mutable_array_wrapper_def)
  from p have ext: "extensible ob" by (simp add: plain_array_def)
  have pg: "\<not> isObject (ordinary_get ob ?k)" using p by (rule plain_array_get)
  have old: "raw_value st (ordinary_get ob ?k)" using pg by (rule raw_value_primitive)
  have vr: "raw_value st v" using v by (rule raw_value_primitive)
  have nr: "\<not> (own_flag st (ordinary_get ob ?k) IS_READONLY \<and> is_box st (ordinary_get ob ?k) \<and>
                \<not> is_box st v)" using pg by (simp add: is_box_primitive)
  have nb: "\<not> (\<not> sh \<and> raw_type ob \<noteq> ''Array'' \<and> is_box st (ordinary_get ob ?k) \<and>
                \<not> is_box st v)" for sh by (simp add: ar)
  have rb: "receiver_base st (VObj w) = Some a" using w by (rule mutable_array_wrapper_base)
  have d: "define_own ob ?k v = Inr (Some ?ob')"
    using ext ar ix by (simp add: define_own_def)
  obtain sh where s: "js_set (Suc (Suc (Suc (Suc n)))) (VObj w) ?k v (VObj w) st =
      createSetter (Suc (Suc (Suc n))) (js_set (Suc (Suc (Suc n)))) sh a ?k v (VObj w) st"
    using w by (rule mutable_array_wrapper_setter)
  have kr: "?k \<noteq> RAW" by simp
  let ?s = "st\<lparr>heap := (heap st)(a \<mapsto> Ordinary ?ob')\<rparr>"
  let ?X = "if \<not> hadKey_before ob ?k then trigger a ADD ?k v VUndefined ?s
            else if hasChanged v (ordinary_get ob ?k) then trigger a SET ?k v (ordinary_get ob ?k) ?s
            else ?s"
  have e: "js_set (Suc (Suc (Suc (Suc n)))) (VObj w) ?k v (VObj w) st = Inr (True, ?X)"
    unfolding s createSetter_write [OF h old vr nr nb rb h kr, where n = n and m = "Suc (Suc n)"] d
    by (simp add: Let_def)
  have hx: "heap ?X = (heap st)(a \<mapsto> Ordinary ?ob')" by simp
  have rx: "registry m ?X = registry m st" for m by simp
  have w': "mutable_array_wrapper ?X w a ?ob'"
    by (rule mutable_array_wrapper_D [OF w], rule mutable_array_wrapper_update [OF w _ _ _ _ hx rx])
       simp_all
  have il: "max (len ob) (Suc i) < 4294967296"
    using p ix by (simp add: plain_array_def is_array_index_def)
  have p': "plain_array ?ob'"
    using p v il by (auto simp: plain_array_def)
  have fr: "\<forall>x. x \<noteq> a \<longrightarrow> heap ?X x = heap st x" by simp
  from e w' p' fr show ?thesis by blast
qed

lemma plain_set_length:
  assumes w: "mutable_array_wrapper st w a ob" and p: "plain_array ob" and l: "l < 4294967296"
  shows "\<exists>st' ob'.
      js_set (Suc (Suc (Suc (Suc n)))) (VObj w) (KStr ''length'') (VNum (int l)) (VObj w) st =
        Inr (True, st') \<and>
      mutable_array_wrapper st' w a ob' \<and> plain_array ob' \<and>
      (\<forall>x. x \<noteq> a \<longrightarrow> heap st' x = heap st x)"
proof -
  let ?k = "KStr ''length''"
  let ?v = "VNum (int l)"
  let ?ob' = "ob\<lparr>props := (\<lambda>j. case j of
                                  KInt i \<Rightarrow>
                                    if i < l \<or> \<not> is_array_index i then props ob j else None
                                | _ \<Rightarrow> props ob j),
                  len := l\<rparr>"
  from w have h: "heap st a = Some (Ordinary ob)" and ar: "raw_type ob = ''Array''"
    by (simp_all add: mutable_array_wrapper_def)
  have pg: "\<not> isObject (ordinary_get ob ?k)" using p by (rule plain_array_get)
  have old: "raw_value st (ordinary_get ob ?k)" using pg by (rule raw_value_primitive)
  have vr: "raw_value st ?v" by (simp add: raw_value_def)
  have nr: "\<not> (own_flag st (ordinary_get ob ?k) IS_READONLY \<and> is_box st (ordinary_get ob ?k) \<and>
                \<not> is_box st ?v)" using pg by (simp add: is_box_primitive)
  have nb: "\<not> (\<not> sh \<and> raw_type ob \<noteq> ''Array'' \<and> is_box st (ordinary_get ob ?k) \<and>
                \<not> is_box st ?v)" for sh by (simp add: ar)
  have rb: "receiver_base st (VObj w) = Some a" using w by (rule mutable_array_wrapper_base)
  have d: "define_own ob ?k ?v = Inr (Some ?ob')"
    using ar l by (simp add: define_own_def)
  obtain sh where s: "js_set (Suc (Suc (Suc (Suc n)))) (VObj w) ?k ?v (VObj w) st =
      createSetter (Suc (Suc (Suc n))) (js_set (Suc (Suc (Suc n)))) sh a ?k ?v (VObj w) st"
    using w by (rule mutable_array_wrapper_setter)
  have kr: "?k \<noteq> RAW" by simp
  let ?s = "st\<lparr>heap := (heap st)(a \<mapsto> Ordinary ?ob')\<rparr>"
  let ?X = "if \<not> hadKey_before ob ?k then trigger a ADD ?k ?v VUndefined ?s
            else if hasChanged ?v (ordinary_get ob ?k) then trigger a SET ?k ?v (ordinary_get ob ?k) ?s
            else ?s"
  have e: "js_set (Suc (Suc (Suc (Suc n)))) (VObj w) ?k ?v (VObj w) st = Inr (True, ?X)"
    unfolding s createSetter_write [OF h old vr nr nb rb h kr, where n = n and m = "Suc (Suc n)"] d
    by (simp add: Let_def)
  have hx: "heap ?X = (heap st)(a \<mapsto> Ordinary ?ob')" by simp
  have rx: "registry m ?X = registry m st" for m by simp
  have w': "mutable_array_wrapper ?X w a ?ob'"
    by (rule mutable_array_wrapper_D [OF w], rule mutable_array_wrapper_update [OF w _ _ _ _ hx rx])
       simp_all
  have p': "plain_array ?ob'"
    using p l by (auto simp: plain_array_def split: key.splits if_splits)
  have fr: "\<forall>x. x \<noteq> a \<longrightarrow> heap ?X x = heap st x" by simp
  from e w' p' fr show ?thesis by blast
qed

lemma plain_delete:
  assumes w: "mutable_array_wrapper st w a ob" and p: "plain_array ob"
  shows "\<exists>st' ob'.
      js_delete (Suc (Suc n)) (VObj w) (KInt i) st = Inr (True, st') \<and>
      mutable_array_wrapper st' w a ob' \<and> plain_array ob' \<and>
      (\<forall>x. x \<noteq> a \<longrightarrow> heap st' x = heap st x)"
  using w
proof (rule mutable_array_wrapper_D)
  fix hs
  assume hw: "heap st w = Some (Proxy a hs)" "\<not> get_isReadonly hs" "\<not> is_collection hs"
    and h: "heap st a = Some (Ordinary ob)" and ar: "raw_type ob = ''Array''"
  let ?k = "KInt i"
  let ?ob' = "ob\<lparr>props := (props ob)(?k := None)\<rparr>"
  let ?s = "st\<lparr>heap := (heap st)(a \<mapsto> Ordinary ?ob')\<rparr>"
  let ?X = "if ordinary_hasOwn ob ?k then trigger a DELETE ?k VUndefined (ordinary_get ob ?k) ?s
            else ?s"
  have e: "js_delete (Suc (Suc n)) (VObj w) ?k st = Inr (True, ?X)"
    using hw h ar
    by (simp add: delete_step_def deleteProperty_def hasOwn_ordinary [OF h] lift_option_def
        ordinary_delete_def)
  have hx: "heap ?X = (heap st)(a \<mapsto> Ordinary ?ob')" by simp
  have rx: "registry m ?X = registry m st" for m by simp
  have w': "mutable_array_wrapper ?X w a ?ob'"
    by (rule mutable_array_wrapper_D [OF w], rule mutable_array_wrapper_update [OF w _ _ _ _ hx rx])
       simp_all
  have p': "plain_array ?ob'"
    using p by (auto simp: plain_array_def)
  have fr: "\<forall>x. x \<noteq> a \<longrightarrow> heap ?X x = heap st x" by simp
  from e w' p' fr show ?thesis by blast
qed


lemma finishes_Return [simp]: "finishes n (Return v) st"
  by (simp add: finishes_def)

lemma finishes_bind:
  assumes "m = Inr (v, s)" "finishes n (c v) s"
  shows "\<exists>res st'. bindr m (\<lambda>x st1. run n (c x) st1) = Inr (res, st')"
  using assms by (simp add: finishes_def)

lemma array_inv_frame:
  assumes i: "array_inv st w a F"
    and w': "mutable_array_wrapper st' w a ob'" "plain_array ob'"
    and fr: "\<forall>x. x \<noteq> a \<longrightarrow> heap st' x = heap st x"
  shows "array_inv st' w a F"
  using assms by (auto simp: array_inv_def)

lemma fin_Get:
  assumes i: "array_inv st w a F"
    and k: "k = KStr ''length'' \<or> k = KStr ''constructor'' \<or> (\<exists>i. k = KInt i)"
    and c: "\<And>v s. \<not> isObject v \<Longrightarrow> array_inv s w a F \<Longrightarrow> nxt s = nxt st \<Longrightarrow>
                finishes (Suc (Suc (Suc (Suc n)))) (c v) s"
  shows "finishes (Suc (Suc (Suc (Suc n)))) (Get (VObj w) k c) st"
proof -
  from i obtain ob where w: "mutable_array_wrapper st w a ob" and p: "plain_array ob"
    by (auto simp: array_inv_def)
  have g: "js_get (Suc (Suc (Suc (Suc n)))) (VObj w) k (VObj w) st =
      Inr (ordinary_get ob k, track a GET k st)"
    using plain_get [OF w p k, of "Suc (Suc n)"] .
  have "finishes (Suc (Suc (Suc (Suc n)))) (c (ordinary_get ob k)) (track a GET k st)"
    using plain_array_get [OF p] i by (intro c) simp_all
  then show ?thesis
    unfolding finishes_def run.simps by (rule finishes_bind [OF g, unfolded finishes_def])
qed

lemma fin_Has:
  assumes i: "array_inv st w a F"
    and c: "\<And>b s. array_inv s w a F \<Longrightarrow> finishes (Suc (Suc (Suc (Suc n)))) (c b) s"
  shows "finishes (Suc (Suc (Suc (Suc n)))) (Has (VObj w) (KInt j) c) st"
proof -
  from i obtain ob where w: "mutable_array_wrapper st w a ob" by (auto simp: array_inv_def)
  have g: "js_has (Suc (Suc (Suc (Suc n)))) (VObj w) (KInt j) st =
      Inr (ordinary_has ob (KInt j), track a HAS (KInt j) st)"
    using plain_has [OF w, of "Suc (Suc n)"] .
  have "finishes (Suc (Suc (Suc (Suc n)))) (c (ordinary_has ob (KInt j))) (track a HAS (KInt j) st)"
    using i by (intro c) simp
  then show ?thesis
    unfolding finishes_def run.simps by (rule finishes_bind [OF g, unfolded finishes_def])
qed

lemma fin_Put_index:
  assumes i: "array_inv st w a F" and v: "\<not> isObject v" and ix: "is_array_index j"
    and c: "\<And>s. array_inv s w a F \<Longrightarrow> finishes (Suc (Suc (Suc (Suc n)))) (c True) s"
  shows "finishes (Suc (Suc (Suc (Suc n)))) (Put (VObj w) (KInt j) v c) st"
proof -
  from i obtain ob where w: "mutable_array_wrapper st w a ob" and p: "plain_array ob"
    by (auto simp: array_inv_def)
  from plain_set_index [OF w p v ix, of n] obtain st' ob' where
    g: "js_set (Suc (Suc (Suc (Suc n)))) (VObj w) (KInt j) v (VObj w) st = Inr (True, st')"
    and w': "mutable_array_wrapper st' w a ob'" "plain_array ob'"
    and fr: "\<forall>x. x \<noteq> a \<longrightarrow> heap st' x = heap st x"
    by blast
  have "finishes (Suc (Suc (Suc (Suc n)))) (c True) st'"
    by (intro c array_inv_frame [OF i w' fr])
  then show ?thesis
    unfolding finishes_def run.simps by (rule finishes_bind [OF g, unfolded finishes_def])
qed

lemma fin_Put_length:
  assumes i: "array_inv st w a F" and l: "l < 4294967296"
    and c: "\<And>s. array_inv s w a F \<Longrightarrow> finishes (Suc (Suc (Suc (Suc n)))) (c True) s"
  shows "finishes (Suc (Suc (Suc (Suc n)))) (Put (VObj w) (KStr ''length'') (VNum (int l)) c) st"
proof -
  from i obtain ob where w: "mutable_array_wrapper st w a ob" and p: "plain_array ob"
    by (auto simp: array_inv_def)
  from plain_set_length [OF w p l, of n] obtain st' ob' where
    g: "js_set (Suc (Suc (Suc (Suc n)))) (VObj w) (KStr ''length'') (VNum (int l)) (VObj w) st =
      Inr (True, st')"
    and w': "mutable_array_wrapper st' w a ob'" "plain_array ob'"
    and fr: "\<forall>x. x \<noteq> a \<longrightarrow> heap st' x = heap st x"
    by blast
  have "finishes (Suc (Suc (Suc (Suc n)))) (c True) st'"
    by (intro c array_inv_frame [OF i w' fr])
  then show ?thesis
    unfolding finishes_def run.simps by (rule finishes_bind [OF g, unfolded finishes_def])
qed

lemma fin_Delete:
  assumes i: "array_inv st w a F"
    and c: "\<And>s. array_inv s w a F \<Longrightarrow> finishes (Suc (Suc (Suc (Suc n)))) (c True) s"
  shows "finishes (Suc (Suc (Suc (Suc n)))) (Delete (VObj w) (KInt j) c) st"
proof -
  from i obtain ob where w: "mutable_array_wrapper st w a ob" and p: "plain_array ob"
    by (auto simp: array_inv_def)
  from plain_delete [OF w p, of "Suc (Suc n)" j] obtain st' ob' where
    g: "js_delete (Suc (Suc (Suc (Suc n)))) (VObj w) (KInt j) st = Inr (True, st')"
    and w': "mutable_array_wrapper st' w a ob'" "plain_array ob'"
    and fr: "\<forall>x. x \<noteq> a \<longrightarrow> heap st' x = heap st x"
    by blast
  have "finishes (Suc (Suc (Suc (Suc n)))) (c True) st'"
    by (intro c array_inv_frame [OF i w' fr])
  then show ?thesis
    unfolding finishes_def run.simps by (rule finishes_bind [OF g, unfolded finishes_def])
qed

lemma fin_set_length:
  assumes "array_inv st w a F" "l < 4294967296"
  shows "finishes (Suc (Suc (Suc (Suc n)))) (set_length (VObj w) l res) st"
  unfolding set_length_def using assms by (intro fin_Put_length) simp_all

lemma fin_put_items:
  assumes "\<forall>e \<in> set args. \<not> isObject e" "l + length args \<le> 4294967295"
    and "array_inv st w a F"
    and "\<And>s. array_inv s w a F \<Longrightarrow> finishes (Suc (Suc (Suc (Suc n)))) rest s"
  shows "finishes (Suc (Suc (Suc (Suc n)))) (put_items (VObj w) l args rest) st"
  using assms
proof (induction args arbitrary: l st)
  case Nil
  then show ?case by simp
next
  case (Cons e es)
  show ?case
    unfolding put_items.simps
  proof (rule fin_Put_index [OF Cons.prems(3)])
    show "\<not> isObject e" using Cons.prems(1) by simp
    show "is_array_index l" using Cons.prems(2) by (simp add: is_array_index_def)
    fix s
    assume "array_inv s w a F"
    then show "finishes (Suc (Suc (Suc (Suc n))))
        (if True then put_items (VObj w) (Suc l) es rest else Throw TypeError) s"
      using Cons.prems by (simp add: Cons.IH)
  qed
qed

lemma fin_delete_items:
  assumes "array_inv st w a F"
    and "\<And>s. array_inv s w a F \<Longrightarrow> finishes (Suc (Suc (Suc (Suc n)))) rest s"
  shows "finishes (Suc (Suc (Suc (Suc n)))) (delete_items (VObj w) js rest) st"
  using assms
proof (induction js arbitrary: st)
  case Nil
  then show ?case by simp
next
  case (Cons j js)
  show ?case
    unfolding delete_items.simps
  proof (rule fin_Delete [OF Cons.prems(1)])
    fix s
    assume "array_inv s w a F"
    then show "finishes (Suc (Suc (Suc (Suc n))))
        (if True then delete_items (VObj w) js rest else Throw TypeError) s"
      using Cons.prems by (simp add: Cons.IH)
  qed
qed

lemma fin_move_items:
  assumes "\<forall>p \<in> set ps. is_array_index (snd p)"
    and "array_inv st w a F"
    and "\<And>s. array_inv s w a F \<Longrightarrow> finishes (Suc (Suc (Suc (Suc n)))) rest s"
  shows "finishes (Suc (Suc (Suc (Suc n)))) (move_items (VObj w) ps rest) st"
  using assms
proof (induction ps arbitrary: st)
  case Nil
  then show ?case by simp
next
  case (Cons p ps)
  have ix: "is_array_index (snd p)" and rest: "\<forall>q \<in> set ps. is_array_index (snd q)"
    using Cons.prems(1) by simp_all
  have ih: "finishes (Suc (Suc (Suc (Suc n)))) (move_items (VObj w) ps rest) s"
    if "array_inv s w a F" for s
    using rest that Cons.prems(3) by (rule Cons.IH)
  show ?case
    unfolding move_items.simps
  proof (rule fin_Has [OF Cons.prems(2)])
    fix b s
    assume s: "array_inv s w a F"
    show "finishes (Suc (Suc (Suc (Suc n))))
        (if b then
           Get (VObj w) (KInt (fst p)) (\<lambda>v.
           Put (VObj w) (KInt (snd p)) v (\<lambda>ok.
             if ok then move_items (VObj w) ps rest else Throw TypeError))
         else
           Delete (VObj w) (KInt (snd p)) (\<lambda>ok.
             if ok then move_items (VObj w) ps rest else Throw TypeError)) s"
    proof (cases b)
      case True
      have "finishes (Suc (Suc (Suc (Suc n))))
          (Get (VObj w) (KInt (fst p)) (\<lambda>v.
           Put (VObj w) (KInt (snd p)) v (\<lambda>ok.
             if ok then move_items (VObj w) ps rest else Throw TypeError))) s"
      proof (rule fin_Get [OF s])
        show "KInt (fst p) = KStr ''length'' \<or> KInt (fst p) = KStr ''constructor'' \<or>
            (\<exists>i. KInt (fst p) = KInt i)" by simp
        fix v s1
        assume v: "\<not> isObject v" and s1: "array_inv s1 w a F"
        show "finishes (Suc (Suc (Suc (Suc n))))
            (Put (VObj w) (KInt (snd p)) v (\<lambda>ok.
               if ok then move_items (VObj w) ps rest else Throw TypeError)) s1"
          by (rule fin_Put_index [OF s1 v ix]) (simp add: ih)
      qed
      with True show ?thesis by simp
    next
      case False
      have "finishes (Suc (Suc (Suc (Suc n))))
          (Delete (VObj w) (KInt (snd p)) (\<lambda>ok.
             if ok then move_items (VObj w) ps rest else Throw TypeError)) s"
        by (rule fin_Delete [OF s]) (simp add: ih)
      with False show ?thesis by simp
    qed
  qed
qed


lemma define_own_scratch:
  assumes "extensible c"
    and "(\<exists>j. k = KInt j) \<or> (k = KStr ''length'' \<and> (\<exists>l. v = VNum (int l) \<and> l < 4294967296))"
  shows "\<exists>c'. define_own c k v = Inr (Some c') \<and> extensible c'"
  using assms by (auto simp: define_own_def)

lemma fin_Put_scratch:
  assumes i: "array_inv st w a F" and x: "x \<in> F"
    and kv: "(\<exists>j. k = KInt j) \<or> (k = KStr ''length'' \<and> (\<exists>l. v = VNum (int l) \<and> l < 4294967296))"
    and c: "\<And>s. array_inv s w a F \<Longrightarrow> finishes (Suc (Suc (Suc (Suc n)))) (c True) s"
  shows "finishes (Suc (Suc (Suc (Suc n)))) (Put (VObj x) k v c) st"
proof -
  from i x obtain ob cx where w: "mutable_array_wrapper st w a ob" and p: "plain_array ob"
    and ne: "x \<noteq> a" "x \<noteq> w" and hx: "heap st x = Some (Ordinary cx)" and ex: "extensible cx"
    by (auto simp: array_inv_def)
  from define_own_scratch [OF ex kv] obtain c' where
    d: "define_own cx k v = Inr (Some c')" and ex': "extensible c'" by blast
  have pb: "proxy_base (Suc x) (heap st) x = Some (x, cx)" using hx by simp
  have g: "js_set (Suc (Suc (Suc (Suc n)))) (VObj x) k v (VObj x) st =
      Inr (True, st\<lparr>heap := (heap st)(x \<mapsto> Ordinary c')\<rparr>)"
    using hx d by (simp add: set_step_def ordinary_set_def pb del: proxy_base.simps)
  have w': "mutable_array_wrapper (st\<lparr>heap := (heap st)(x \<mapsto> Ordinary c')\<rparr>) w a ob"
    using w ne by (auto simp: mutable_array_wrapper_def registry_def
        split: option.splits cell.splits proxyMap.splits)
  have "\<forall>y \<in> F. y \<noteq> a \<and> y \<noteq> w \<and>
      (\<exists>c. heap (st\<lparr>heap := (heap st)(x \<mapsto> Ordinary c')\<rparr>) y = Some (Ordinary c) \<and> extensible c)"
    using i ex' by (auto simp: array_inv_def)
  with w' p have "array_inv (st\<lparr>heap := (heap st)(x \<mapsto> Ordinary c')\<rparr>) w a F"
    unfolding array_inv_def by blast
  then have "finishes (Suc (Suc (Suc (Suc n)))) (c True) (st\<lparr>heap := (heap st)(x \<mapsto> Ordinary c')\<rparr>)"
    by (rule c)
  then show ?thesis
    unfolding finishes_def run.simps by (rule finishes_bind [OF g, unfolded finishes_def])
qed

lemma fin_NewArray:
  assumes i: "array_inv st w a {}" and fresh: "w < nxt st" and l: "l < 4294967296"
    and c: "\<And>s x. array_inv s w a {x} \<Longrightarrow> finishes N (c (VObj x)) s"
  shows "finishes N (NewArray l c) st"
proof -
  let ?s = "st\<lparr>heap := (heap st)(nxt st \<mapsto>
      Ordinary \<lparr>raw_type = ''Array'', extensible = True, props = Map.empty, len = l\<rparr>),
      nxt := Suc (nxt st)\<rparr>"
  from i obtain ob where w: "mutable_array_wrapper st w a ob" and p: "plain_array ob"
    by (auto simp: array_inv_def)
  have aw: "a < w" using w by (simp add: mutable_array_wrapper_def)
  have w': "mutable_array_wrapper ?s w a ob"
    using w fresh aw by (auto simp: mutable_array_wrapper_def registry_def
        split: option.splits cell.splits proxyMap.splits)
  have "array_inv ?s w a {nxt st}"
    unfolding array_inv_def using w' p fresh aw by auto
  then have "finishes N (c (VObj (nxt st))) ?s" by (rule c)
  then show ?thesis using l by (simp add: finishes_def)
qed

lemma fin_length_of:
  assumes i: "array_inv st w a F"
    and w: "mutable_array_wrapper st w a ob" and p: "plain_array ob"
    and c: "\<And>s. array_inv s w a F \<Longrightarrow> nxt s = nxt st \<Longrightarrow>
                finishes (Suc (Suc (Suc (Suc n)))) (c (len ob)) s"
  shows "finishes (Suc (Suc (Suc (Suc n)))) (length_of (VObj w) c) st"
proof -
  have g: "js_get (Suc (Suc (Suc (Suc n)))) (VObj w) (KStr ''length'') (VObj w) st =
      Inr (ordinary_get ob (KStr ''length''), track a GET (KStr ''length'') st)"
    using plain_get [OF w p, of "KStr ''length''" "Suc (Suc n)"] by simp
  have og: "ordinary_get ob (KStr ''length'') = VNum (int (len ob))"
    using w by (simp add: mutable_array_wrapper_def ordinary_get_def)
  have m: "nat (min (int (len ob)) 9007199254740991) = len ob"
    using p by (simp add: plain_array_def)
  have "finishes (Suc (Suc (Suc (Suc n)))) (c (len ob)) (track a GET (KStr ''length'') st)"
    using i by (intro c) simp_all
  then show ?thesis
    unfolding finishes_def length_of_def run.simps g bindr_Inr og val.case m .
qed

lemma fin_copy_items:
  assumes "array_inv st w a F" and x: "x \<in> F"
    and "\<And>s. array_inv s w a F \<Longrightarrow> finishes (Suc (Suc (Suc (Suc n)))) rest s"
  shows "finishes (Suc (Suc (Suc (Suc n)))) (copy_items (VObj w) (VObj x) ps rest) st"
  using assms(1,3)
proof (induction ps arbitrary: st)
  case Nil
  then show ?case by simp
next
  case (Cons p ps)
  have ih: "finishes (Suc (Suc (Suc (Suc n)))) (copy_items (VObj w) (VObj x) ps rest) s"
    if "array_inv s w a F" for s
    using that Cons.prems(2) by (rule Cons.IH)
  show ?case
    unfolding copy_items.simps
  proof (rule fin_Has [OF Cons.prems(1)])
    fix b s
    assume s: "array_inv s w a F"
    show "finishes (Suc (Suc (Suc (Suc n))))
        (if b then
           Get (VObj w) (KInt (fst p)) (\<lambda>v.
           Put (VObj x) (KInt (snd p)) v (\<lambda>ok.
             if ok then copy_items (VObj w) (VObj x) ps rest else Throw TypeError))
         else copy_items (VObj w) (VObj x) ps rest) s"
    proof (cases b)
      case True
      have "finishes (Suc (Suc (Suc (Suc n))))
          (Get (VObj w) (KInt (fst p)) (\<lambda>v.
           Put (VObj x) (KInt (snd p)) v (\<lambda>ok.
             if ok then copy_items (VObj w) (VObj x) ps rest else Throw TypeError))) s"
      proof (rule fin_Get [OF s])
        show "KInt (fst p) = KStr ''length'' \<or> KInt (fst p) = KStr ''constructor'' \<or>
            (\<exists>i. KInt (fst p) = KInt i)" by simp
        fix v s1
        assume s1: "array_inv s1 w a F"
        show "finishes (Suc (Suc (Suc (Suc n))))
            (Put (VObj x) (KInt (snd p)) v (\<lambda>ok.
               if ok then copy_items (VObj w) (VObj x) ps rest else Throw TypeError)) s1"
          by (rule fin_Put_scratch [OF s1 x]) (simp_all add: ih)
      qed
      with True show ?thesis by simp
    next
      case False
      then show ?thesis by (simp add: ih s)
    qed
  qed
qed

lemma fin_push:
  assumes w: "mutable_array_wrapper st w a ob" and p: "plain_array ob"
    and args: "\<forall>e \<in> set args. \<not> isObject e" and b: "len ob + length args < 4294967295"
  shows "finishes (Suc (Suc (Suc (Suc n)))) (push_method (VObj w) args) st"
proof -
  have i: "array_inv st w a {}" using w p by (auto simp: array_inv_def)
  show ?thesis
    unfolding push_method_def
  proof (rule fin_length_of [OF i w p])
    fix s
    assume s: "array_inv s w a {}"
    have "finishes (Suc (Suc (Suc (Suc n))))
        (put_items (VObj w) (len ob) args
           (set_length (VObj w) (len ob + length args) (VNum (int (len ob + length args))))) s"
      using args b s by (intro fin_put_items fin_set_length) simp_all
    then show "finishes (Suc (Suc (Suc (Suc n))))
        (if 9007199254740991 < len ob + length args then Throw TypeError
         else put_items (VObj w) (len ob) args
           (set_length (VObj w) (len ob + length args) (VNum (int (len ob + length args))))) s"
      using b by simp
  qed
qed

lemma fin_pop:
  assumes w: "mutable_array_wrapper st w a ob" and p: "plain_array ob"
  shows "finishes (Suc (Suc (Suc (Suc n)))) (pop_method (VObj w)) st"
proof -
  have i: "array_inv st w a {}" using w p by (auto simp: array_inv_def)
  have l: "len ob < 4294967296" using p by (simp add: plain_array_def)
  show ?thesis
    unfolding pop_method_def
  proof (rule fin_length_of [OF i w p])
    fix s
    assume s: "array_inv s w a {}"
    show "finishes (Suc (Suc (Suc (Suc n))))
        (if len ob = 0 then set_length (VObj w) 0 VUndefined
         else Get (VObj w) (KInt (len ob - 1)) (\<lambda>e.
                delete_items (VObj w) [len ob - 1] (set_length (VObj w) (len ob - 1) e))) s"
    proof (cases "len ob = 0")
      case True
      then show ?thesis using s by (simp add: fin_set_length)
    next
      case False
      have "finishes (Suc (Suc (Suc (Suc n))))
          (Get (VObj w) (KInt (len ob - 1)) (\<lambda>e.
             delete_items (VObj w) [len ob - 1] (set_length (VObj w) (len ob - 1) e))) s"
      proof (rule fin_Get [OF s])
        show "KInt (len ob - 1) = KStr ''length'' \<or> KInt (len ob - 1) = KStr ''constructor'' \<or>
            (\<exists>i. KInt (len ob - 1) = KInt i)" by simp
        fix v s1
        assume s1: "array_inv s1 w a {}"
        show "finishes (Suc (Suc (Suc (Suc n))))
            (delete_items (VObj w) [len ob - 1] (set_length (VObj w) (len ob - 1) v)) s1"
          using l by (intro fin_delete_items [OF s1] fin_set_length) simp_all
      qed
      with False show ?thesis by simp
    qed
  qed
qed

lemma fin_shift:
  assumes w: "mutable_array_wrapper st w a ob" and p: "plain_array ob"
  shows "finishes (Suc (Suc (Suc (Suc n)))) (shift_method (VObj w)) st"
proof -
  have i: "array_inv st w a {}" using w p by (auto simp: array_inv_def)
  have l: "len ob < 4294967296" using p by (simp add: plain_array_def)
  show ?thesis
    unfolding shift_method_def
  proof (rule fin_length_of [OF i w p])
    fix s
    assume s: "array_inv s w a {}"
    show "finishes (Suc (Suc (Suc (Suc n))))
        (if len ob = 0 then set_length (VObj w) 0 VUndefined
         else Get (VObj w) (KInt 0) (\<lambda>first.
                move_items (VObj w) (map (\<lambda>k. (k, k - 1)) [1..<len ob])
                  (delete_items (VObj w) [len ob - 1]
                     (set_length (VObj w) (len ob - 1) first)))) s"
    proof (cases "len ob = 0")
      case True
      then show ?thesis using s by (simp add: fin_set_length)
    next
      case False
      have "finishes (Suc (Suc (Suc (Suc n))))
          (Get (VObj w) (KInt 0) (\<lambda>first.
             move_items (VObj w) (map (\<lambda>k. (k, k - 1)) [1..<len ob])
               (delete_items (VObj w) [len ob - 1]
                  (set_length (VObj w) (len ob - 1) first)))) s"
      proof (rule fin_Get [OF s])
        show "KInt 0 = KStr ''length'' \<or> KInt 0 = KStr ''constructor'' \<or>
            (\<exists>i. KInt 0 = KInt i)" by simp
        fix v s1
        assume s1: "array_inv s1 w a {}"
        have ix: "\<forall>q \<in> set (map (\<lambda>k. (k, k - 1)) [1..<len ob]). is_array_index (snd q)"
          using l by (auto simp: is_array_index_def)
        show "finishes (Suc (Suc (Suc (Suc n))))
            (move_items (VObj w) (map (\<lambda>k. (k, k - 1)) [1..<len ob])
               (delete_items (VObj w) [len ob - 1] (set_length (VObj w) (len ob - 1) v))) s1"
          using l by (intro fin_move_items [OF ix s1] fin_delete_items fin_set_length) simp_all
      qed
      with False show ?thesis by simp
    qed
  qed
qed

lemma fin_unshift:
  assumes w: "mutable_array_wrapper st w a ob" and p: "plain_array ob"
    and args: "\<forall>e \<in> set args. \<not> isObject e" and b: "len ob + length args < 4294967295"
  shows "finishes (Suc (Suc (Suc (Suc n)))) (unshift_method (VObj w) args) st"
proof -
  have i: "array_inv st w a {}" using w p by (auto simp: array_inv_def)
  have l: "len ob < 4294967296" using p by (simp add: plain_array_def)
  show ?thesis
    unfolding unshift_method_def
  proof (rule fin_length_of [OF i w p])
    fix s
    assume s: "array_inv s w a {}"
    have ix: "\<forall>q \<in> set (map (\<lambda>k. (k - 1, k + length args - 1)) (rev [1..<Suc (len ob)])).
        is_array_index (snd q)"
      using b by (auto simp: is_array_index_def)
    have "finishes (Suc (Suc (Suc (Suc n))))
        (move_items (VObj w) (map (\<lambda>k. (k - 1, k + length args - 1)) (rev [1..<Suc (len ob)]))
           (put_items (VObj w) 0 args
              (set_length (VObj w) (len ob + length args) (VNum (int (len ob + length args)))))) s"
      using args b by (intro fin_move_items [OF ix s] fin_put_items fin_set_length) simp_all
    then show "finishes (Suc (Suc (Suc (Suc n))))
        (if args = [] then set_length (VObj w) (len ob) (VNum (int (len ob)))
         else if 9007199254740991 < len ob + length args then Throw TypeError
         else move_items (VObj w)
                (map (\<lambda>k. (k - 1, k + length args - 1)) (rev [1..<Suc (len ob)]))
                (put_items (VObj w) 0 args
                   (set_length (VObj w) (len ob + length args)
                      (VNum (int (len ob + length args)))))) s"
      using b l s by (simp add: fin_set_length)
  qed
qed

lemma splice_range_bounds:
  assumes "splice_range l args = Some (start, dc)"
  shows "start \<le> l \<and> dc \<le> l - start"
  using assms
  by (auto simp: splice_range_def Let_def min_def max_def
      split: list.splits option.splits if_splits)


lemma fin_splice:
  assumes w: "mutable_array_wrapper st w a ob" and p: "plain_array ob"
    and args: "\<forall>e \<in> set args. \<not> isObject e" and b: "len ob + length args < 4294967295"
    and fresh: "w < nxt st" and r: "splice_range (len ob) args = Some (start, dc)"
  shows "finishes (Suc (Suc (Suc (Suc n)))) (splice_method (VObj w) args) st"
proof -
  let ?N = "Suc (Suc (Suc (Suc n)))"
  let ?l = "len ob"
  let ?items = "drop 2 args"
  let ?ic = "length (drop 2 args)"
  let ?moves = "if ?ic < dc then map (\<lambda>k. (k + dc, k + ?ic)) [start..<?l - dc]
       else if dc < ?ic then
         map (\<lambda>k. (k + dc - 1, k + ?ic - 1)) (rev [Suc start..<Suc (?l - dc)])
       else []"
  let ?dels = "if ?ic < dc then map (\<lambda>k. k - 1) (rev [Suc (?l - dc + ?ic)..<Suc ?l]) else []"
  have i: "array_inv st w a {}" using w p by (auto simp: array_inv_def)
  have l: "?l < 4294967296" using p by (simp add: plain_array_def)
  have bd: "start \<le> ?l" "dc \<le> ?l - start" using splice_range_bounds [OF r] by simp_all
  have ic: "?ic \<le> length args" by simp
  have items: "\<forall>e \<in> set ?items. \<not> isObject e" using args by (auto dest: in_set_dropD)
  have ix: "\<forall>q \<in> set ?moves. is_array_index (snd q)"
    using b bd ic by (auto simp: is_array_index_def)
  have tail: "finishes ?N
      (move_items (VObj w) ?moves
         (delete_items (VObj w) ?dels
            (put_items (VObj w) start ?items (set_length (VObj w) (?l - dc + ?ic) res)))) s"
    if s: "array_inv s w a F" for s F res
  proof (intro fin_move_items [OF ix s] fin_delete_items fin_put_items [OF items] fin_set_length)
    show "start + ?ic \<le> 4294967295" using b bd ic by simp
    show "?l - dc + ?ic < 4294967296" using b bd ic by simp
  qed simp_all
  have body: "finishes ?N
      (Get (VObj w) (KStr ''constructor'') (\<lambda>ctor.
       NewArray dc (\<lambda>arr.
       copy_items (VObj w) arr (map (\<lambda>k. (start + k, k)) [0..<dc])
         (Put arr (KStr ''length'') (VNum (int dc)) (\<lambda>ok.
            if \<not> ok then Throw TypeError
            else move_items (VObj w) ?moves
                   (delete_items (VObj w) ?dels
                      (put_items (VObj w) start ?items
                         (set_length (VObj w) (?l - dc + ?ic) arr)))))))) s"
    if s: "array_inv s w a {}" and n1: "nxt s = nxt st" for s
  proof (rule fin_Get [OF s])
    show "KStr ''constructor'' = KStr ''length'' \<or> KStr ''constructor'' = KStr ''constructor'' \<or>
        (\<exists>i. KStr ''constructor'' = KInt i)" by simp
    fix v s1
    assume s1: "array_inv s1 w a {}" and n2: "nxt s1 = nxt s"
    show "finishes ?N
        (NewArray dc (\<lambda>arr.
         copy_items (VObj w) arr (map (\<lambda>k. (start + k, k)) [0..<dc])
           (Put arr (KStr ''length'') (VNum (int dc)) (\<lambda>ok.
              if \<not> ok then Throw TypeError
              else move_items (VObj w) ?moves
                     (delete_items (VObj w) ?dels
                        (put_items (VObj w) start ?items
                           (set_length (VObj w) (?l - dc + ?ic) arr))))))) s1"
    proof (rule fin_NewArray [OF s1])
      show "w < nxt s1" using fresh n1 n2 by simp
      show "dc < 4294967296" using bd l by simp
      fix s2 x
      assume s2: "array_inv s2 w a {x}"
      show "finishes ?N
          (copy_items (VObj w) (VObj x) (map (\<lambda>k. (start + k, k)) [0..<dc])
             (Put (VObj x) (KStr ''length'') (VNum (int dc)) (\<lambda>ok.
                if \<not> ok then Throw TypeError
                else move_items (VObj w) ?moves
                       (delete_items (VObj w) ?dels
                          (put_items (VObj w) start ?items
                             (set_length (VObj w) (?l - dc + ?ic) (VObj x))))))) s2"
      proof (rule fin_copy_items [OF s2])
        show "x \<in> {x}" by simp
        fix s3
        assume s3: "array_inv s3 w a {x}"
        show "finishes ?N
            (Put (VObj x) (KStr ''length'') (VNum (int dc)) (\<lambda>ok.
               if \<not> ok then Throw TypeError
               else move_items (VObj w) ?moves
                      (delete_items (VObj w) ?dels
                         (put_items (VObj w) start ?items
                            (set_length (VObj w) (?l - dc + ?ic) (VObj x)))))) s3"
        proof (rule fin_Put_scratch [OF s3])
          show "x \<in> {x}" by simp
          show "(\<exists>j. KStr ''length'' = KInt j) \<or>
              (KStr ''length'' = KStr ''length'' \<and> (\<exists>l. VNum (int dc) = VNum (int l) \<and> l < 4294967296))"
            using bd l by simp
          fix s4
          assume s4: "array_inv s4 w a {x}"
          show "finishes ?N
              (if \<not> True then Throw TypeError
               else move_items (VObj w) ?moves
                      (delete_items (VObj w) ?dels
                         (put_items (VObj w) start ?items
                            (set_length (VObj w) (?l - dc + ?ic) (VObj x))))) s4"
            unfolding not_True_eq_False if_False by (rule tail [OF s4])
        qed
      qed
    qed
  qed
  show ?thesis
    unfolding splice_method_def
  proof (rule fin_length_of [OF i w p])
    fix s
    assume s: "array_inv s w a {}" and n1: "nxt s = nxt st"
    have c: "(9007199254740991 < ?l + ?ic - dc) = False" using b ic by simp
    show "finishes ?N
        (case splice_range ?l args of
           None \<Rightarrow> Throw NotModelled
         | Some (start, dc) \<Rightarrow>
             let items = drop 2 args; ic = length items in
             if 9007199254740991 < ?l + ic - dc then Throw TypeError
             else
               Get (VObj w) (KStr ''constructor'') (\<lambda>ctor.
               NewArray dc (\<lambda>arr.
               copy_items (VObj w) arr (map (\<lambda>k. (start + k, k)) [0..<dc])
                 (Put arr (KStr ''length'') (VNum (int dc)) (\<lambda>ok.
                    if \<not> ok then Throw TypeError
                    else
                      move_items (VObj w)
                        (if ic < dc then map (\<lambda>k. (k + dc, k + ic)) [start..<?l - dc]
                         else if dc < ic then
                           map (\<lambda>k. (k + dc - 1, k + ic - 1)) (rev [Suc start..<Suc (?l - dc)])
                         else [])
                        (delete_items (VObj w)
                           (if ic < dc then map (\<lambda>k. k - 1) (rev [Suc (?l - dc + ic)..<Suc ?l]) else [])
                           (put_items (VObj w) start items
                              (set_length (VObj w) (?l - dc + ic) arr)))))))) s"
      unfolding r option.case prod.case Let_def c if_False by (rule body [OF s n1])
  qed
qed

lemma fin_array_method:
  assumes w: "mutable_array_wrapper st w a ob" and p: "plain_array ob"
    and args: "\<forall>e \<in> set args. \<not> isObject e" and b: "len ob + length args < 4294967295"
    and fresh: "w < nxt st" and name: "name \<in> set mutator_methods"
    and r: "name = ''splice'' \<longrightarrow> splice_range (len ob) args \<noteq> None"
  shows "finishes (Suc (Suc (Suc (Suc n)))) (array_method name (VObj w) args) st"
proof -
  from name consider "name = ''push''" | "name = ''pop''" | "name = ''shift''"
    | "name = ''unshift''" | "name = ''splice''"
    by (auto simp: mutator_methods_def)
  then show ?thesis
  proof cases
    case 1
    then show ?thesis using fin_push [OF w p args b, of n] by (simp add: array_method_def)
  next
    case 2
    then show ?thesis using fin_pop [OF w p, of n] by (simp add: array_method_def)
  next
    case 3
    then show ?thesis using fin_shift [OF w p, of n] by (simp add: array_method_def)
  next
    case 4
    then show ?thesis using fin_unshift [OF w p args b, of n] by (simp add: array_method_def)
  next
    case 5
    with r obtain start dc where "splice_range (len ob) args = Some (start, dc)" by auto
    from fin_splice [OF w p args b fresh this, of n] 5
    show ?thesis by (simp add: array_method_def)
  qed
qed

lemma mutator_returns:
  assumes w: "mutable_array_wrapper st w a ob" and p: "plain_array ob"
    and args: "\<forall>e \<in> set args. \<not> isObject e" and b: "len ob + length args < 4294967295"
    and fresh: "w < nxt st" and name: "name \<in> set mutator_methods"
    and r: "name = ''splice'' \<longrightarrow> splice_range (len ob) args \<noteq> None"
  shows "\<exists>res st'. mutator_instrumentation (run_method array_method (Suc (Suc (Suc (Suc n)))))
      (Suc (Suc (Suc (Suc n)))) name (VObj w) args st = Inr (res, st')"
proof -
  have w': "mutable_array_wrapper (pauseTracking st) w a ob"
    using w by (rule mutable_array_wrapper_same_heap) (simp_all add: heap_pauseTracking registry_pauseTracking)
  have "w < nxt (pauseTracking st)" using fresh by (simp add: pauseTracking_def)
  from fin_array_method [OF w' p args b this name r, of n] obtain res st3 where
    "run (Suc (Suc (Suc (Suc n)))) (array_method name (VObj w) args) (pauseTracking st) = Inr (res, st3)"
    by (auto simp: finishes_def)
  with mutator_run [OF w name, where n = "Suc n" and m = array_method and args = args] show ?thesis by simp
qed

text \<open>
  Claim C9 (as amended). For a mutable wrapper of a raw array and each of \<open>push\<close>, \<open>pop\<close>,
  \<open>shift\<close>, \<open>unshift\<close>, \<open>splice\<close>, whatever program of property reads, writes, deletions and
  presence checks the native method is: the replacement method pauses tracking and applies the
  raw array's method with the wrapper itself as \<open>this\<close> (not the raw array); if the method
  fails, so does the call; if it returns, the call returns the method's result, the tracking
  flag and its stack are what they were before the call, and no dependency has been registered
  (none on \<open>length\<close> either). For \<open>push\<close> of primitive values onto an extensible array the call
  returns the new length and fires one \<open>ADD\<close> trigger per pushed element through the wrapper's
  set trap. On an extensible array of primitive values, with primitive arguments and a resulting
  length that stays an array length, each of the five methods of the language does return (for
  \<open>splice\<close>: when its first two arguments are numbers, booleans, \<open>null\<close> or \<open>undefined\<close>); \<open>w < nxt st\<close>
  says that the wrapper is an allocated address. A direct read of the wrapper's \<open>length\<close>
  registers the dependency on \<open>length\<close> whenever tracking is on and a reader is active.
\<close>

theorem mutator_shim:
  assumes w: "mutable_array_wrapper st w a ob"
  shows "(\<forall>m name args. name \<in> set mutator_methods \<longrightarrow>
            (case run (Suc (Suc (Suc (Suc n)))) (m name (VObj w) args) (pauseTracking st) of
               Inl e \<Rightarrow>
                 mutator_instrumentation (run_method m (Suc (Suc (Suc (Suc n)))))
                   (Suc (Suc (Suc (Suc n)))) name (VObj w) args st = Inl e
             | Inr (res, st3) \<Rightarrow>
                 mutator_instrumentation (run_method m (Suc (Suc (Suc (Suc n)))))
                   (Suc (Suc (Suc (Suc n)))) name (VObj w) args st = Inr (res, resetTracking st3) \<and>
                 shouldTrack (resetTracking st3) = shouldTrack st \<and>
                 trackStack (resetTracking st3) = trackStack st \<and>
                 deps (resetTracking st3) = deps st)) \<and>
         (\<forall>args. growable ob \<and> (\<forall>e \<in> set args. \<not> isObject e) \<and>
                 len ob + length args < 4294967296 \<longrightarrow>
            (\<exists>st'. mutator_instrumentation (run_method array_method (Suc (Suc (Suc (Suc n)))))
                      (Suc (Suc (Suc (Suc n)))) ''push'' (VObj w) args st =
                        Inr (VNum (int (len ob + length args)), st') \<and>
                    shouldTrack st' = shouldTrack st \<and> trackStack st' = trackStack st \<and>
                    deps st' = deps st \<and>
                    calls st' = calls st @ Track a GET (KStr ''length'') #
                      add_triggers a (len ob) args)) \<and>
         (\<forall>name args. name \<in> set mutator_methods \<and> plain_array ob \<and>
                 (\<forall>e \<in> set args. \<not> isObject e) \<and> len ob + length args < 4294967295 \<and>
                 w < nxt st \<and> (name = ''splice'' \<longrightarrow> splice_range (len ob) args \<noteq> None) \<longrightarrow>
            (\<exists>res st'. mutator_instrumentation (run_method array_method (Suc (Suc (Suc (Suc n)))))
                      (Suc (Suc (Suc (Suc n)))) name (VObj w) args st = Inr (res, st'))) \<and>
         deps_of (js_get (Suc (Suc (Suc (Suc n)))) (VObj w) (KStr ''length'') (VObj w) st) =
           deps st @ (if shouldTrack st \<and> activeEffect st then [(a, KStr ''length'')] else [])"
proof (intro conjI allI impI)
  fix m name args
  assume "name \<in> set mutator_methods"
  with w show "case run (Suc (Suc (Suc (Suc n)))) (m name (VObj w) args) (pauseTracking st) of
               Inl e \<Rightarrow>
                 mutator_instrumentation (run_method m (Suc (Suc (Suc (Suc n)))))
                   (Suc (Suc (Suc (Suc n)))) name (VObj w) args st = Inl e
             | Inr (res, st3) \<Rightarrow>
                 mutator_instrumentation (run_method m (Suc (Suc (Suc (Suc n)))))
                   (Suc (Suc (Suc (Suc n)))) name (VObj w) args st = Inr (res, resetTracking st3) \<and>
                 shouldTrack (resetTracking st3) = shouldTrack st \<and>
                 trackStack (resetTracking st3) = trackStack st \<and>
                 deps (resetTracking st3) = deps st"
    by (rule mutator_run)
next
  fix args
  assume "growable ob \<and> (\<forall>e \<in> set args. \<not> isObject e) \<and> len ob + length args < 4294967296"
  then show "\<exists>st'. mutator_instrumentation (run_method array_method (Suc (Suc (Suc (Suc n)))))
                      (Suc (Suc (Suc (Suc n)))) ''push'' (VObj w) args st =
                        Inr (VNum (int (len ob + length args)), st') \<and>
                    shouldTrack st' = shouldTrack st \<and> trackStack st' = trackStack st \<and>
                    deps st' = deps st \<and>
                    calls st' = calls st @ Track a GET (KStr ''length'') #
                      add_triggers a (len ob) args"
    using mutator_push [OF w, of args n] by blast
next
  fix name args
  assume "name \<in> set mutator_methods \<and> plain_array ob \<and>
      (\<forall>e \<in> set args. \<not> isObject e) \<and> len ob + length args < 4294967295 \<and>
      w < nxt st \<and> (name = ''splice'' \<longrightarrow> splice_range (len ob) args \<noteq> None)"
  then show "\<exists>res st'. mutator_instrumentation (run_method array_method (Suc (Suc (Suc (Suc n)))))
      (Suc (Suc (Suc (Suc n)))) name (VObj w) args st = Inr (res, st')"
    using mutator_returns [OF w, of args name n] by blast
next
  show "deps_of (js_get (Suc (Suc (Suc (Suc n)))) (VObj w) (KStr ''length'') (VObj w) st) =
           deps st @ (if shouldTrack st \<and> activeEffect st then [(a, KStr ''length'')] else [])"
    unfolding array_length_read [OF w, of "Suc (Suc n)"]
    by (simp add: deps_of_def track_def)
qed

theorem mutator_shim_witness:
  "value_of (mutator_instrumentation (run_method array_method (Suc (Suc (Suc (Suc 0)))))
      (Suc (Suc (Suc (Suc 0)))) ''push'' (VObj 1) [VNum 9] array_state) = Some (VNum 3) \<and>
   deps_of (mutator_instrumentation (run_method array_method (Suc (Suc (Suc (Suc 0)))))
      (Suc (Suc (Suc (Suc 0)))) ''push'' (VObj 1) [VNum 9] array_state) = [] \<and>
   calls_of (mutator_instrumentation (run_method array_method (Suc (Suc (Suc (Suc 0)))))
      (Suc (Suc (Suc (Suc 0)))) ''push'' (VObj 1) [VNum 9] array_state) =
     [Track 0 GET (KStr ''length''), Trigger 0 ADD (KInt 2) (VNum 9) VUndefined] \<and>
   value_of (mutator_instrumentation (run_method array_method (Suc (Suc (Suc (Suc 0)))))
      (Suc (Suc (Suc (Suc 0)))) ''pop'' (VObj 1) [] array_state) = Some (VNum 8) \<and>
   deps_of (mutator_instrumentation (run_method array_method (Suc (Suc (Suc (Suc 0)))))
      (Suc (Suc (Suc (Suc 0)))) ''pop'' (VObj 1) [] array_state) = [] \<and>
   value_of (mutator_instrumentation (run_method array_method (Suc (Suc (Suc (Suc 0)))))
      (Suc (Suc (Suc (Suc 0)))) ''shift'' (VObj 1) [] array_state) = Some (VNum 7) \<and>
   deps_of (mutator_instrumentation (run_method array_method (Suc (Suc (Suc (Suc 0)))))
      (Suc (Suc (Suc (Suc 0)))) ''shift'' (VObj 1) [] array_state) = [] \<and>
   value_of (mutator_instrumentation (run_method array_method (Suc (Suc (Suc (Suc 0)))))
      (Suc (Suc (Suc (Suc 0)))) ''unshift'' (VObj 1) [VNum 5, VNum 6] array_state) = Some (VNum 4) \<and>
   deps_of (mutator_instrumentation (run_method array_method (Suc (Suc (Suc (Suc 0)))))
      (Suc (Suc (Suc (Suc 0)))) ''unshift'' (VObj 1) [VNum 5, VNum 6] array_state) = [] \<and>
   value_of (mutator_instrumentation (run_method array_method (Suc (Suc (Suc (Suc 0)))))
      (Suc (Suc (Suc (Suc 0)))) ''splice'' (VObj 1) [VNum 0, VNum 1, VNum 5, VNum 6] array_state) =
     Some (VObj 2) \<and>
   deps_of (mutator_instrumentation (run_method array_method (Suc (Suc (Suc (Suc 0)))))
      (Suc (Suc (Suc (Suc 0)))) ''splice'' (VObj 1) [VNum 0, VNum 1, VNum 5, VNum 6] array_state) =
     [] \<and>
   (\<exists>res st'. mutator_instrumentation (run_method array_method (Suc (Suc (Suc (Suc 0)))))
      (Suc (Suc (Suc (Suc 0)))) ''splice'' (VObj 1) [VNum 1, VNum 1, VNum 5, VNum 6] array_state =
     Inr (res, st')) \<and>
   deps_of (js_get (Suc (Suc (Suc (Suc 0)))) (VObj 1) (KStr ''length'') (VObj 1) array_state) =
     [(0, KStr ''length'')]"
proof -
  let ?ob = "\<lparr>raw_type = ''Array'', extensible = True,
               props = [KInt 1 \<mapsto> VNum 8, KInt 0 \<mapsto> VNum 7], len = 2\<rparr>"
  let ?st = array_state
  let ?N = "Suc (Suc (Suc (Suc 0)))"
  have w: "mutable_array_wrapper ?st 1 0 ?ob"
    by (simp add: mutable_array_wrapper_def array_state_eq registry_def
        handlers_registry_def variant_map_def search_methods_def mutator_methods_def)
  have g: "growable ?ob \<and> (\<forall>e \<in> set [VNum 9]. \<not> isObject e) \<and>
      len ?ob + length [VNum 9] < 4294967296"
    by (simp add: growable_def)
  have s: "shouldTrack ?st" "activeEffect ?st" "deps ?st = []" "calls ?st = []"
    by (simp_all add: array_state_eq)
  let ?push = "mutator_instrumentation (run_method array_method ?N) ?N ''push'' (VObj 1) [VNum 9] ?st"
  note t = mutator_shim [OF w, of 0]
  from t have "growable ?ob \<and> (\<forall>e \<in> set [VNum 9]. \<not> isObject e) \<and>
        len ?ob + length [VNum 9] < 4294967296 \<longrightarrow>
      (\<exists>st'. ?push = Inr (VNum (int (len ?ob + length [VNum 9])), st') \<and>
         shouldTrack st' = shouldTrack ?st \<and> trackStack st' = trackStack ?st \<and>
         deps st' = deps ?st \<and>
         calls st' = calls ?st @ Track 0 GET (KStr ''length'') # add_triggers 0 (len ?ob) [VNum 9])"
    by blast
  with g obtain st' where p: "?push = Inr (VNum (int (len ?ob + length [VNum 9])), st')"
      "deps st' = deps ?st"
      "calls st' = calls ?st @ Track 0 GET (KStr ''length'') # add_triggers 0 (len ?ob) [VNum 9]"
    by blast
  have a1: "value_of ?push = Some (VNum 3)" "deps_of ?push = []"
    "calls_of ?push = [Track 0 GET (KStr ''length''), Trigger 0 ADD (KInt 2) (VNum 9) VUndefined]"
    unfolding p(1) using p(2,3) s by (simp_all add: value_of_def deps_of_def calls_of_def)
  have run: "value_of (mutator_instrumentation (run_method array_method ?N) ?N name (VObj 1) args ?st)
        = Some res \<and>
      deps_of (mutator_instrumentation (run_method array_method ?N) ?N name (VObj 1) args ?st) = []"
    if name: "name \<in> set mutator_methods"
      and r: "run ?N (array_method name (VObj 1) args) (pauseTracking ?st) = Inr (res, st3)"
    for name args res st3
  proof -
    let ?m = "mutator_instrumentation (run_method array_method ?N) ?N name (VObj 1) args ?st"
    from t have "name \<in> set mutator_methods \<longrightarrow>
      (case run ?N (array_method name (VObj 1) args) (pauseTracking ?st) of
         Inl e \<Rightarrow> ?m = Inl e
       | Inr (res, s3) \<Rightarrow>
           ?m = Inr (res, resetTracking s3) \<and>
           shouldTrack (resetTracking s3) = shouldTrack ?st \<and>
           trackStack (resetTracking s3) = trackStack ?st \<and>
           deps (resetTracking s3) = deps ?st)"
      by blast
    with name have q: "?m = Inr (res, resetTracking st3)" "deps (resetTracking st3) = deps ?st"
      unfolding r by simp_all
    show ?thesis
      unfolding q(1) using q(2) s by (simp add: value_of_def deps_of_def)
  qed
  note defs = array_method_def pop_method_def shift_method_def unshift_method_def
    splice_method_def splice_range_def length_of_def set_length_def array_state_eq
    pauseTracking_def get_step_def createGetter_def isArray_def map_get_def registry_def
    variant_map_def ordinary_get_def search_methods_def mutator_methods_def
    isNonTrackableKeys_def track_def isRef_def delete_step_def deleteProperty_def hasOwn_def
    ordinary_hasOwn_def lift_option_def ordinary_delete_def trigger_def set_step_def
    createSetter_def isReadonly_def isShallow_def andr_def notr_def ordinary_set_def
    define_own_def is_array_index_def hasChanged_def has_step_def has_def ordinary_has_def
    Let_def upt_rec
  have names: "''pop'' \<in> set mutator_methods" "''shift'' \<in> set mutator_methods"
    "''unshift'' \<in> set mutator_methods" "''splice'' \<in> set mutator_methods"
    by (simp_all add: mutator_methods_def)
  obtain s1 where r1: "run ?N (array_method ''pop'' (VObj 1) []) (pauseTracking ?st) =
      Inr (VNum 8, s1)"
    by (simp add: defs)
  obtain s2 where r2: "run ?N (array_method ''shift'' (VObj 1) []) (pauseTracking ?st) =
      Inr (VNum 7, s2)"
    by (simp add: defs)
  obtain s3 where r3: "run ?N (array_method ''unshift'' (VObj 1) [VNum 5, VNum 6])
      (pauseTracking ?st) = Inr (VNum 4, s3)"
    by (simp add: defs)
  obtain s4 where r4: "run ?N (array_method ''splice'' (VObj 1) [VNum 0, VNum 1, VNum 5, VNum 6])
      (pauseTracking ?st) = Inr (VObj 2, s4)"
    by (simp add: defs numeral_3_eq_3)
  have h: "''splice'' \<in> set mutator_methods \<and> plain_array ?ob \<and>
      (\<forall>e \<in> set [VNum 1, VNum 1, VNum 5, VNum 6]. \<not> isObject e) \<and>
      len ?ob + length [VNum 1, VNum 1, VNum 5, VNum 6] < 4294967295 \<and> 1 < nxt ?st \<and>
      (''splice'' = ''splice'' \<longrightarrow>
         splice_range (len ?ob) [VNum 1, VNum 1, VNum 5, VNum 6] \<noteq> None)"
    by (simp add: mutator_methods_def plain_array_def splice_range_def array_state_eq)
  from t have "''splice'' \<in> set mutator_methods \<and> plain_array ?ob \<and>
      (\<forall>e \<in> set [VNum 1, VNum 1, VNum 5, VNum 6]. \<not> isObject e) \<and>
      len ?ob + length [VNum 1, VNum 1, VNum 5, VNum 6] < 4294967295 \<and> 1 < nxt ?st \<and>
      (''splice'' = ''splice'' \<longrightarrow>
         splice_range (len ?ob) [VNum 1, VNum 1, VNum 5, VNum 6] \<noteq> None) \<longrightarrow>
      (\<exists>res st'. mutator_instrumentation (run_method array_method ?N) ?N ''splice'' (VObj 1)
         [VNum 1, VNum 1, VNum 5, VNum 6] ?st = Inr (res, st'))"
    by blast
  with h have a2: "\<exists>res st'. mutator_instrumentation (run_method array_method ?N) ?N ''splice''
      (VObj 1) [VNum 1, VNum 1, VNum 5, VNum 6] ?st = Inr (res, st')"
    by blast
  from t have d: "deps_of (js_get ?N (VObj 1) (KStr ''length'') (VObj 1) ?st) =
      deps ?st @ (if shouldTrack ?st \<and> activeEffect ?st then [(0, KStr ''length'')] else [])"
    by blast
  have a3: "deps_of (js_get ?N (VObj 1) (KStr ''length'') (VObj 1) ?st) = [(0, KStr ''length'')]"
    unfolding d using s by simp
  from a1 run [OF names(1) r1] run [OF names(2) r2] run [OF names(3) r3] run [OF names(4) r4]
    a2 a3
  show ?thesis by (intro conjI) blast+
qed

text \<open>
  The claim as stated has the native method run against the unwrapped array. The source applies
  it with the wrapper as \<open>this\<close>: on wrapper 1 of the array 0 = [7, 8], \<open>push(9)\<close> goes through the
  wrapper's traps and fires the \<open>ADD\<close> trigger for index 2, whereas the same method run against
  the unwrapped array (\<open>mutator_on_raw\<close>) reaches no trap and notifies nobody.
\<close>

theorem mutator_applied_to_wrapper_counterexample:
  "calls_of (mutator_instrumentation (run_method array_method (Suc (Suc (Suc (Suc 0)))))
      (Suc (Suc (Suc (Suc 0)))) ''push'' (VObj 1) [VNum 9] array_state) =
     [Track 0 GET (KStr ''length''), Trigger 0 ADD (KInt 2) (VNum 9) VUndefined] \<and>
   value_of (mutator_on_raw (run_method array_method (Suc (Suc (Suc (Suc 0)))))
      (Suc (Suc (Suc (Suc 0)))) ''push'' (VObj 1) [VNum 9] array_state) = Some (VNum 3) \<and>
   calls_of (mutator_on_raw (run_method array_method (Suc (Suc (Suc (Suc 0)))))
      (Suc (Suc (Suc (Suc 0)))) ''push'' (VObj 1) [VNum 9] array_state) = []"
proof -
  let ?ob = "\<lparr>raw_type = ''Array'', extensible = True,
               props = [KInt 1 \<mapsto> VNum 8, KInt 0 \<mapsto> VNum 7], len = 2\<rparr>"
  let ?st = array_state
  let ?N = "Suc (Suc (Suc (Suc 0)))"
  have w: "mutable_array_wrapper ?st 1 0 ?ob"
    by (simp add: mutable_array_wrapper_def array_state_eq registry_def
        handlers_registry_def variant_map_def search_methods_def mutator_methods_def)
  have g: "growable ?ob" by (simp add: growable_def)
  have a: "\<forall>e \<in> set [VNum 9]. \<not> isObject e" by simp
  have b: "len ?ob + length [VNum 9] < 4294967296" by simp
  have s: "calls ?st = []" by (simp add: array_state_eq)
  have name: "''push'' \<in> set mutator_methods" by (simp add: mutator_methods_def)
  from mutator_push [OF w g a b, of 0] obtain st' where
    p: "mutator_instrumentation (run_method array_method ?N) ?N ''push'' (VObj 1) [VNum 9] ?st =
          Inr (VNum (int (len ?ob + length [VNum 9])), st')"
       "calls st' = calls ?st @ Track 0 GET (KStr ''length'') # add_triggers 0 (len ?ob) [VNum 9]"
    by blast
  have c1: "calls_of (mutator_instrumentation (run_method array_method ?N) ?N ''push'' (VObj 1)
      [VNum 9] ?st) = [Track 0 GET (KStr ''length''), Trigger 0 ADD (KInt 2) (VNum 9) VUndefined]"
    unfolding p(1) using p(2) s by (simp add: calls_of_def)
  have r: "mutator_on_raw (run_method array_method ?N) ?N ''push'' (VObj 1) [VNum 9] ?st =
      bindr (run_method array_method ?N ''push'' (VObj 0) [VNum 9] (pauseTracking ?st))
        (\<lambda>res st3. Inr (res, resetTracking st3))"
    by (rule mutator_on_raw_eval [OF w name])
  have c2: "value_of (mutator_on_raw (run_method array_method ?N) ?N ''push'' (VObj 1) [VNum 9] ?st) =
        Some (VNum 3) \<and>
      calls_of (mutator_on_raw (run_method array_method ?N) ?N ''push'' (VObj 1) [VNum 9] ?st) = []"
    unfolding r
    by (simp add: run_method_def array_method_def push_method_def length_of_def set_length_def
        array_state_eq pauseTracking_def resetTracking_def search_methods_def mutator_methods_def
        get_step_def set_step_def ordinary_get_def ordinary_set_def define_own_def
        is_array_index_def value_of_def calls_of_def)
  from c1 c2 show ?thesis by (intro conjI) blast+
qed

end
